theory Spec2Isabelle
  imports Complex_Main
begin

text \<open>
  A shallow embedding of the H5P answer extractor (\<open>h5p_answer_extractor.py\<close> and
  \<open>extract_answers.py\<close>). Every function of the program that the properties below
  concern is a HOL function of the same name. A raised exception is the value \<open>Inl e\<close>;
  a loop over a list is a recursive function that carries the loop's variables; the
  dicts the program builds are association lists in insertion order.
\<close>

section \<open>Python values\<close>

text \<open>
  A Python \<open>str\<close> is a sequence of Unicode code points; a code point is a natural
  number. Literals of the program are written \<open>u ''...''\<close>.
\<close>

type_synonym ustr = "nat list"

definition u :: "string \<Rightarrow> ustr" where
  "u s = map of_char s"

text \<open>
  A float as \<open>json.loads\<close> produces it: a finite value (the exact rational value of the
  double), negative zero, the infinities and NaN (the parser accepts the literals
  \<open>Infinity\<close>, \<open>-Infinity\<close> and \<open>NaN\<close>).
\<close>

datatype pyfloat = Finite rat | NegZero | PosInf | NegInf | NaN

text \<open>
  The tree that \<open>json.loads\<close> returns, which is also the shape of every value the
  extractor builds: \<open>None\<close>, \<open>bool\<close>, \<open>int\<close>, \<open>float\<close>, \<open>str\<close>, \<open>list\<close> and
  \<open>dict\<close> with string keys. A dict is an association list; a key is looked up at its
  first binding.
\<close>

datatype json =
    JNull
  | JBool bool
  | JInt int
  | JFloat pyfloat
  | JStr ustr
  | JList "json list"
  | JObj "(ustr \<times> json) list"

datatype py_error = TypeError | ValueError | AttributeError | IndexError | OverflowError

text \<open>Truth value of an object, as \<open>if x:\<close> and \<open>not x\<close> test it.\<close>

fun truthy :: "json \<Rightarrow> bool" where
  "truthy JNull = False"
| "truthy (JBool b) = b"
| "truthy (JInt i) = (i \<noteq> 0)"
| "truthy (JFloat (Finite q)) = (q \<noteq> 0)"
| "truthy (JFloat NegZero) = False"
| "truthy (JFloat _) = True"
| "truthy (JStr s) = (s \<noteq> [])"
| "truthy (JList xs) = (xs \<noteq> [])"
| "truthy (JObj kvs) = (kvs \<noteq> [])"

text \<open>
  \<open>x.get(key, default)\<close>: only a dict has the method; on any other object the
  attribute lookup raises AttributeError.
\<close>

fun dget :: "json \<Rightarrow> ustr \<Rightarrow> json \<Rightarrow> py_error + json" where
  "dget (JObj kvs) k d = Inr (case map_of kvs k of None \<Rightarrow> d | Some v \<Rightarrow> v)"
| "dget _ k d = Inl AttributeError"

section \<open>Text Normalizer: \<open>_clean_html_text\<close>\<close>

text \<open>
  \<open>\s\<close> in a \<open>str\<close> pattern and \<open>str.strip()\<close> both test \<open>Py_UNICODE_ISSPACE\<close>: the
  code points with bidirectional type WS, B or S or category Zs.
\<close>

definition is_space :: "nat \<Rightarrow> bool" where
  "is_space c \<longleftrightarrow>
     (9 \<le> c \<and> c \<le> 13) \<or> (28 \<le> c \<and> c \<le> 32) \<or> c = 133 \<or> c = 160 \<or> c = 5760 \<or>
     (8192 \<le> c \<and> c \<le> 8202) \<or> c = 8232 \<or> c = 8233 \<or> c = 8239 \<or> c = 8287 \<or> c = 12288"

definition is_ascii_letter :: "nat \<Rightarrow> bool" where
  "is_ascii_letter c \<longleftrightarrow> (97 \<le> c \<and> c \<le> 122) \<or> (65 \<le> c \<and> c \<le> 90)"

text \<open>
  \<open>re.sub(r"<[^>]+>", "", text)\<close>. At a code point 60 (less-than) the greedy class
  takes every following code point up to the next 62 (greater-than) or the end; the match
  succeeds when that run is not empty and a 62 follows it (a shorter run would have to be
  followed by 62 too, and is not). The scan resumes after the match, or one code point
  further when there is none.
\<close>

function strip_tags :: "ustr \<Rightarrow> ustr" where
  "strip_tags [] = []"
| "strip_tags (c # cs) =
     (if c = 60 \<and> takeWhile (\<lambda>x. x \<noteq> 62) cs \<noteq> [] \<and> dropWhile (\<lambda>x. x \<noteq> 62) cs \<noteq> []
      then strip_tags (tl (dropWhile (\<lambda>x. x \<noteq> 62) cs))
      else c # strip_tags cs)"
  by pat_completeness auto
termination
proof (relation "measure length")
  fix c :: nat and cs :: ustr and P :: "nat \<Rightarrow> bool"
  have "length (tl (dropWhile P cs)) \<le> length (dropWhile P cs)" by simp
  also have "\<dots> \<le> length cs" by (rule length_dropWhile_le)
  finally have "length (tl (dropWhile P cs)) < length (c # cs)" by simp
  then show "(tl (dropWhile P cs), c # cs) \<in> measure length" by simp
qed simp_all

text \<open>\<open>re.sub(r"&nbsp;", " ", text)\<close>: every occurrence, left to right.\<close>

fun starts_with :: "ustr \<Rightarrow> ustr \<Rightarrow> bool" where
  "starts_with [] s = True"
| "starts_with (p # ps) [] = False"
| "starts_with (p # ps) (c # cs) = (p = c \<and> starts_with ps cs)"

function replace_nbsp :: "ustr \<Rightarrow> ustr" where
  "replace_nbsp [] = []"
| "replace_nbsp (c # cs) =
     (if starts_with (u ''&nbsp;'') (c # cs) then 32 # replace_nbsp (drop 5 cs)
      else c # replace_nbsp cs)"
  by pat_completeness auto
termination
  by (relation "measure length") auto

text \<open>
  \<open>re.sub(r"&[a-zA-Z]+;", "", text)\<close>: at an \<open>&\<close>, the longest run of ASCII letters,
  not empty, followed by \<open>;\<close>.
\<close>

function strip_entities :: "ustr \<Rightarrow> ustr" where
  "strip_entities [] = []"
| "strip_entities (c # cs) =
     (if c = 38 \<and> takeWhile is_ascii_letter cs \<noteq> [] \<and>
         starts_with [59] (dropWhile is_ascii_letter cs)
      then strip_entities (tl (dropWhile is_ascii_letter cs))
      else c # strip_entities cs)"
  by pat_completeness auto
termination
proof (relation "measure length")
  fix c :: nat and cs :: ustr and P :: "nat \<Rightarrow> bool"
  have "length (tl (dropWhile P cs)) \<le> length (dropWhile P cs)" by simp
  also have "\<dots> \<le> length cs" by (rule length_dropWhile_le)
  finally have "length (tl (dropWhile P cs)) < length (c # cs)" by simp
  then show "(tl (dropWhile P cs), c # cs) \<in> measure length" by simp
qed simp_all

text \<open>\<open>re.sub(r"\s+", " ", text)\<close>: each maximal run of whitespace becomes one space.\<close>

function collapse_ws :: "ustr \<Rightarrow> ustr" where
  "collapse_ws [] = []"
| "collapse_ws (c # cs) =
     (if is_space c then 32 # collapse_ws (dropWhile is_space cs)
      else c # collapse_ws cs)"
  by pat_completeness auto
termination
  by (relation "measure length")
     (auto simp: less_Suc_eq_le length_dropWhile_le)

text \<open>\<open>str.strip()\<close> with no argument.\<close>

definition strip :: "ustr \<Rightarrow> ustr" where
  "strip s = rev (dropWhile is_space (rev (dropWhile is_space s)))"

definition clean_str :: "ustr \<Rightarrow> ustr" where
  "clean_str s = strip (collapse_ws (strip_entities (replace_nbsp (strip_tags s))))"

text \<open>
  \<open>_clean_html_text(text)\<close>. A falsy argument of any type returns the empty string; a
  truthy argument that is not a \<open>str\<close> makes \<open>re.sub\<close> raise TypeError.
\<close>

definition clean_text :: "ustr \<Rightarrow> ustr" where
  "clean_text s = (if s = [] then [] else clean_str s)"

fun clean_html_text :: "json \<Rightarrow> py_error + ustr" where
  "clean_html_text (JStr s) = Inr (clean_text s)"
| "clean_html_text v = (if truthy v then Inl TypeError else Inr [])"

section \<open>Built-ins of the interpreter\<close>

text \<open>Sequencing of calls that may raise: the first exception ends the computation.\<close>

fun ebind :: "py_error + 'a \<Rightarrow> ('a \<Rightarrow> py_error + 'b) \<Rightarrow> py_error + 'b" where
  "ebind (Inl e) f = Inl e"
| "ebind (Inr v) f = f v"

text \<open>
  Built-ins whose result depends on the Unicode character database or on the binary
  representation of floats are parameters of the model: \<open>str.lower\<close>, \<open>str.capitalize\<close>
  on a non-empty string, \<open>int\<close> of a string (\<open>None\<close> stands for ValueError), \<open>str\<close> of a
  float, list or dict, and \<open>format(x, ".2f")\<close>. Every theorem below holds for all of them.
\<close>

record py_builtins =
  str_lower :: "ustr \<Rightarrow> ustr"
  str_capitalize :: "ustr \<Rightarrow> ustr"
  int_of_str :: "ustr \<Rightarrow> int option"
  str_of_other :: "json \<Rightarrow> ustr"
  format_2f :: "json \<Rightarrow> py_error + ustr"

text \<open>Decimal digits of a natural number, and \<open>str\<close> of an \<open>int\<close>.\<close>

function digits_of :: "nat \<Rightarrow> ustr" where
  "digits_of n = (if n < 10 then [48 + n] else digits_of (n div 10) @ [48 + n mod 10])"
  by pat_completeness auto
termination
  by (relation "measure id") auto

definition show_int :: "int \<Rightarrow> ustr" where
  "show_int i = (if i < 0 then 45 # digits_of (nat (- i)) else digits_of (nat i))"

text \<open>\<open>str(x)\<close>.\<close>

fun py_str :: "py_builtins \<Rightarrow> json \<Rightarrow> ustr" where
  "py_str B (JStr s) = s"
| "py_str B JNull = u ''None''"
| "py_str B (JBool b) = (if b then u ''True'' else u ''False'')"
| "py_str B (JInt i) = show_int i"
| "py_str B v = str_of_other B v"

text \<open>\<open>s.capitalize()\<close>: the empty string is returned unchanged.\<close>

definition py_capitalize :: "py_builtins \<Rightarrow> ustr \<Rightarrow> ustr" where
  "py_capitalize B s = (if s = [] then [] else str_capitalize B s)"

text \<open>
  \<open>int(x)\<close>: a float is truncated towards zero, NaN raises ValueError and an infinity
  OverflowError; \<open>None\<close>, a list and a dict raise TypeError.
\<close>

definition trunc :: "rat \<Rightarrow> int" where
  "trunc q = (if q < 0 then - \<lfloor>- q\<rfloor> else \<lfloor>q\<rfloor>)"

fun py_int :: "py_builtins \<Rightarrow> json \<Rightarrow> py_error + int" where
  "py_int B (JInt i) = Inr i"
| "py_int B (JBool b) = Inr (if b then 1 else 0)"
| "py_int B (JFloat (Finite q)) = Inr (trunc q)"
| "py_int B (JFloat NegZero) = Inr 0"
| "py_int B (JFloat NaN) = Inl ValueError"
| "py_int B (JFloat _) = Inl OverflowError"
| "py_int B (JStr s) = (case int_of_str B s of None \<Rightarrow> Inl ValueError | Some i \<Rightarrow> Inr i)"
| "py_int B _ = Inl TypeError"

text \<open>\<open>chr(n)\<close>: a one-character string, ValueError beyond the last code point.\<close>

definition py_chr :: "nat \<Rightarrow> py_error + ustr" where
  "py_chr n = (if n < 1114112 then Inr [n] else Inl ValueError)"

text \<open>\<open>xs[k]\<close> on a list: a negative index counts from the end.\<close>

definition py_index :: "'a list \<Rightarrow> int \<Rightarrow> py_error + 'a" where
  "py_index xs k =
     (if 0 \<le> k \<and> k < int (length xs) then Inr (xs ! nat k)
      else if k < 0 \<and> - int (length xs) \<le> k then Inr (xs ! nat (int (length xs) + k))
      else Inl IndexError)"

text \<open>
  The items a \<open>for\<close> loop draws from an object: the elements of a list, the characters
  of a string, the keys of a dict; any other object of the tree is not iterable.
\<close>

fun dict_keys :: "(ustr \<times> json) list \<Rightarrow> ustr list" where
  "dict_keys [] = []"
| "dict_keys ((k, v) # kvs) = k # filter (\<lambda>k'. k' \<noteq> k) (dict_keys kvs)"

fun py_iter :: "json \<Rightarrow> py_error + json list" where
  "py_iter (JList xs) = Inr xs"
| "py_iter (JStr s) = Inr (map (\<lambda>c. JStr [c]) s)"
| "py_iter (JObj kvs) = Inr (map JStr (dict_keys kvs))"
| "py_iter _ = Inl TypeError"

text \<open>
  \<open>sub in x\<close> for a string \<open>sub\<close>: substring test on a string, membership in a list,
  key test on a dict, TypeError on anything else.
\<close>

fun contains :: "ustr \<Rightarrow> ustr \<Rightarrow> bool" where
  "contains sub [] = (sub = [])"
| "contains sub (c # cs) = (starts_with sub (c # cs) \<or> contains sub cs)"

fun py_contains :: "ustr \<Rightarrow> json \<Rightarrow> py_error + bool" where
  "py_contains sub (JStr s) = Inr (contains sub s)"
| "py_contains sub (JList xs) = Inr (JStr sub \<in> set xs)"
| "py_contains sub (JObj kvs) = Inr (sub \<in> set (map fst kvs))"
| "py_contains sub _ = Inl TypeError"

text \<open>\<open>sep.join(xs)\<close>: every item has to be a string.\<close>

fun py_join :: "ustr \<Rightarrow> json list \<Rightarrow> py_error + ustr" where
  "py_join sep [] = Inr []"
| "py_join sep [JStr s] = Inr s"
| "py_join sep (JStr s # x # xs) = ebind (py_join sep (x # xs)) (\<lambda>r. Inr (s @ sep @ r))"
| "py_join sep (_ # xs) = Inl TypeError"

text \<open>
  A dict under construction: \<open>d[k] = v\<close> keeps the position of a key that is present
  and appends a new one; \<open>d.update(e)\<close> stores the items of \<open>e\<close> in turn; \<open>d.get(k)\<close>
  is \<open>None\<close> for a missing key.
\<close>

type_synonym pydict = "(ustr \<times> json) list"

fun dict_set :: "ustr \<Rightarrow> json \<Rightarrow> pydict \<Rightarrow> pydict" where
  "dict_set k v [] = [(k, v)]"
| "dict_set k v ((k', v') # d) = (if k' = k then (k, v) # d else (k', v') # dict_set k v d)"

definition dict_update :: "pydict \<Rightarrow> pydict \<Rightarrow> pydict" where
  "dict_update d e = foldl (\<lambda>d' (k, v). dict_set k v d') d e"

definition get_or_none :: "pydict \<Rightarrow> ustr \<Rightarrow> json" where
  "get_or_none d k = (case map_of d k of None \<Rightarrow> JNull | Some v \<Rightarrow> v)"

section \<open>Per-type extraction\<close>

subsection \<open>\<open>_extract_multiple_choice_answers\<close>\<close>

text \<open>
  The body of \<open>for i, answer in enumerate(answers)\<close>: the state is the list
  \<open>answer_options\<close> and \<open>correct_answer\<close> (\<open>None\<close> at the start).
\<close>

fun mc_loop :: "nat \<Rightarrow> json list \<Rightarrow> json list \<times> json \<Rightarrow> py_error + json list \<times> json" where
  "mc_loop i [] st = Inr st"
| "mc_loop i (answer # rest) (answer_options, correct_answer) =
     ebind (dget answer (u ''text'') (JStr [])) (\<lambda>t.
     ebind (clean_html_text t) (\<lambda>answer_text.
     ebind (dget answer (u ''correct'') (JBool False)) (\<lambda>is_correct.
     ebind (py_chr (65 + i)) (\<lambda>label.
       mc_loop (Suc i) rest
         (answer_options @
            [JObj [(u ''option'', JStr label), (u ''text'', JStr answer_text),
                   (u ''is_correct'', is_correct)]],
          if truthy is_correct then JStr label else correct_answer)))))"

definition extract_multiple_choice_answers :: "json \<Rightarrow> py_error + pydict" where
  "extract_multiple_choice_answers params =
     ebind (dget params (u ''question'') (JStr [])) (\<lambda>q.
     ebind (clean_html_text q) (\<lambda>question_text.
     ebind (dget params (u ''answers'') (JList [])) (\<lambda>answers.
     ebind (py_iter answers) (\<lambda>xs.
     ebind (mc_loop 0 xs ([], JNull)) (\<lambda>(answer_options, correct_answer).
       Inr [(u ''question'', JStr question_text),
            (u ''answers'', JList answer_options),
            (u ''correct_answer'', correct_answer)])))))"

subsection \<open>\<open>_extract_drag_drop_answers\<close>\<close>

text \<open>The first loop: the texts of the elements whose type is an AdvancedText.\<close>

fun drag_items_loop :: "json list \<Rightarrow> ustr list \<Rightarrow> py_error + ustr list" where
  "drag_items_loop [] drag_items = Inr drag_items"
| "drag_items_loop (element # rest) drag_items =
     ebind (dget element (u ''type'') (JObj [])) (\<lambda>element_type.
     ebind (dget element_type (u ''library'') JNull) (\<lambda>library.
       if library = JStr (u ''H5P.AdvancedText 1.1'')
       then ebind (dget element_type (u ''params'') (JObj [])) (\<lambda>p.
            ebind (dget p (u ''text'') (JStr [])) (\<lambda>t.
            ebind (clean_html_text t) (\<lambda>text.
              drag_items_loop rest (drag_items @ [text]))))
       else drag_items_loop rest drag_items))"

text \<open>
  \<open>correct_matches\<close> maps a drag item's text to a list of zone positions, in insertion
  order. \<open>add_match\<close> is the pair of statements that creates the empty list for a new
  text and appends the position.
\<close>

type_synonym matches = "(ustr \<times> nat list) list"

fun add_match :: "ustr \<Rightarrow> nat \<Rightarrow> matches \<Rightarrow> matches" where
  "add_match t idx [] = [(t, [idx])]"
| "add_match t idx ((k, zs) # m) =
     (if k = t then (k, zs @ [idx]) # m else (k, zs) # add_match t idx m)"

text \<open>
  One entry of \<open>correctElements\<close>: the \<open>try\<close> block, and the \<open>except\<close> clause that
  swallows ValueError and IndexError and lets every other exception through.
\<close>

definition try_entry :: "py_builtins \<Rightarrow> ustr list \<Rightarrow> nat \<Rightarrow> matches \<Rightarrow> json \<Rightarrow> py_error + matches" where
  "try_entry B drag_items idx correct_matches element_idx =
     ebind (py_int B element_idx) (\<lambda>k.
       if k < int (length drag_items)
       then ebind (py_index drag_items k) (\<lambda>drag_item_text.
              Inr (add_match drag_item_text idx correct_matches))
       else Inr correct_matches)"

definition match_entry :: "py_builtins \<Rightarrow> ustr list \<Rightarrow> nat \<Rightarrow> matches \<Rightarrow> json \<Rightarrow> py_error + matches" where
  "match_entry B drag_items idx correct_matches element_idx =
     (case try_entry B drag_items idx correct_matches element_idx of
        Inl ValueError \<Rightarrow> Inr correct_matches
      | Inl IndexError \<Rightarrow> Inr correct_matches
      | r \<Rightarrow> r)"

fun entries_loop :: "py_builtins \<Rightarrow> ustr list \<Rightarrow> nat \<Rightarrow> json list \<Rightarrow> matches \<Rightarrow> py_error + matches" where
  "entries_loop B drag_items idx [] correct_matches = Inr correct_matches"
| "entries_loop B drag_items idx (element_idx # rest) correct_matches =
     ebind (match_entry B drag_items idx correct_matches element_idx)
       (entries_loop B drag_items idx rest)"

fun zones_loop :: "py_builtins \<Rightarrow> ustr list \<Rightarrow> nat \<Rightarrow> json list \<Rightarrow> ustr list \<times> matches \<Rightarrow>
    py_error + ustr list \<times> matches" where
  "zones_loop B drag_items idx [] st = Inr st"
| "zones_loop B drag_items idx (zone # rest) (drop_areas, correct_matches) =
     ebind (dget zone (u ''label'') (JStr [])) (\<lambda>l.
     ebind (clean_html_text l) (\<lambda>zone_label.
     ebind (dget zone (u ''correctElements'') (JList [])) (\<lambda>correct_elements.
     ebind (py_iter correct_elements) (\<lambda>es.
     ebind (entries_loop B drag_items idx es correct_matches) (\<lambda>correct_matches'.
       zones_loop B drag_items (Suc idx) rest
         (if zone_label \<noteq> [] then drop_areas @ [zone_label] else drop_areas,
          correct_matches'))))))"

definition json_of_matches :: "matches \<Rightarrow> json" where
  "json_of_matches m = JObj (map (\<lambda>(t, zs). (t, JList (map (\<lambda>z. JInt (int z)) zs))) m)"

definition extract_drag_drop_answers :: "py_builtins \<Rightarrow> json \<Rightarrow> py_error + pydict" where
  "extract_drag_drop_answers B params =
     ebind (dget params (u ''question'') (JObj [])) (\<lambda>question_data.
     ebind (dget question_data (u ''task'') (JObj [])) (\<lambda>task.
     ebind (dget task (u ''elements'') (JList [])) (\<lambda>elements.
     ebind (dget task (u ''dropZones'') (JList [])) (\<lambda>drop_zones.
     ebind (py_iter elements) (\<lambda>els.
     ebind (drag_items_loop els []) (\<lambda>drag_items.
     ebind (py_iter drop_zones) (\<lambda>zs.
     ebind (zones_loop B drag_items 0 zs ([], [])) (\<lambda>(drop_areas, correct_matches).
       Inr [(u ''type'', JStr (u ''Drag and Drop'')),
            (u ''drag_items'', JList (map JStr drag_items)),
            (u ''drop_areas'', JList (map JStr drop_areas)),
            (u ''correct_matches'', json_of_matches correct_matches)]))))))))"

subsection \<open>\<open>_extract_true_false_answers\<close>\<close>

definition extract_true_false_answers :: "py_builtins \<Rightarrow> json \<Rightarrow> py_error + pydict" where
  "extract_true_false_answers B params =
     ebind (dget params (u ''question'') (JStr [])) (\<lambda>q.
     ebind (clean_html_text q) (\<lambda>question_text.
     ebind (dget params (u ''correct'') (JStr [])) (\<lambda>correct.
       Inr [(u ''question'', JStr question_text),
            (u ''correct_answer'',
               JStr (case correct of
                       JBool b \<Rightarrow> (if b then u ''True'' else u ''False'')
                     | _ \<Rightarrow> py_capitalize B (py_str B correct)))])))"

subsection \<open>\<open>_extract_fill_in_blanks_answers\<close> and \<open>_extract_drag_text_answers\<close>\<close>

text \<open>
  \<open>re.findall(r"\*(.*?)\*", text)\<close>. At an asterisk (42) the lazy group grows one code
  point at a time and stops at the first asterisk; the dot does not match a line feed (10),
  so the attempt fails when a line feed or the end comes first, and the scan moves on by
  one code point. After a match the scan resumes behind the closing asterisk.
\<close>

function findall_star :: "ustr \<Rightarrow> ustr list" where
  "findall_star [] = []"
| "findall_star (c # cs) =
     (if c = 42 \<and> starts_with [42] (dropWhile (\<lambda>x. x \<noteq> 42 \<and> x \<noteq> 10) cs)
      then takeWhile (\<lambda>x. x \<noteq> 42 \<and> x \<noteq> 10) cs #
           findall_star (tl (dropWhile (\<lambda>x. x \<noteq> 42 \<and> x \<noteq> 10) cs))
      else findall_star cs)"
  by pat_completeness auto
termination
proof (relation "measure length")
  fix c :: nat and cs :: ustr and P :: "nat \<Rightarrow> bool"
  have "length (tl (dropWhile P cs)) \<le> length (dropWhile P cs)" by simp
  also have "\<dots> \<le> length cs" by (rule length_dropWhile_le)
  finally have "length (tl (dropWhile P cs)) < length (c # cs)" by simp
  then show "(tl (dropWhile P cs), c # cs) \<in> measure length" by simp
qed simp_all

definition extract_fill_in_blanks_answers :: "py_builtins \<Rightarrow> json \<Rightarrow> py_error + pydict" where
  "extract_fill_in_blanks_answers B params =
     ebind (dget params (u ''questions'') JNull) (\<lambda>questions.
     ebind (if truthy questions
            then (case questions of
                    JList qs \<Rightarrow> ebind (py_join [10] qs) (\<lambda>joined. Inr (JStr joined))
                  | _ \<Rightarrow> Inr (JStr (py_str B questions)))
            else dget params (u ''text'') (JStr [])) (\<lambda>text.
     ebind (clean_html_text text) (\<lambda>text'.
       Inr [(u ''question'', JStr text'),
            (u ''answers'', JList (map JStr (findall_star text')))])))"

text \<open>
  Drag Text scans the raw \<open>textField\<close> (\<open>re.findall\<close> raises TypeError when it is not a
  string) and normalizes each span afterwards.
\<close>

definition extract_drag_text_answers :: "json \<Rightarrow> py_error + pydict" where
  "extract_drag_text_answers params =
     ebind (dget params (u ''taskDescription'') (JStr [])) (\<lambda>d.
     ebind (clean_html_text d) (\<lambda>question_text.
     ebind (dget params (u ''textField'') (JStr [])) (\<lambda>text_field.
       case text_field of
         JStr s \<Rightarrow>
           Inr [(u ''question'', JStr question_text),
                (u ''answers'', JList (map (\<lambda>ans. JStr (clean_text ans)) (findall_star s))),
                (u ''text_field'', text_field)]
       | _ \<Rightarrow> Inl TypeError)))"

section \<open>Answer Extractor: \<open>extract_all_answers\<close>\<close>

text \<open>
  The \<open>if\<close>/\<open>elif\<close> chain on the library identifier: which branch the loop body takes.
  The tests run in the order written and the first that holds decides.
\<close>

datatype branch = MultiChoice | DragQuestion | TrueFalse | Blanks | Image | DragText | Other

definition dispatch :: "json \<Rightarrow> py_error + branch" where
  "dispatch library =
     ebind (py_contains (u ''MultiChoice'') library) (\<lambda>b. if b then Inr MultiChoice else
     ebind (py_contains (u ''DragQuestion'') library) (\<lambda>b. if b then Inr DragQuestion else
     ebind (py_contains (u ''TrueFalse'') library) (\<lambda>b. if b then Inr TrueFalse else
     ebind (py_contains (u ''Blanks'') library) (\<lambda>b. if b then Inr Blanks else
     ebind (py_contains (u ''Image'') library) (\<lambda>b. if b then Inr Image else
     ebind (py_contains (u ''DragText'') library) (\<lambda>b. if b then Inr DragText else
       Inr Other))))))"

text \<open>The test that decides whether \<open>answer_data\<close> is appended.\<close>

definition kept :: "pydict \<Rightarrow> bool" where
  "kept answer_data \<longleftrightarrow>
     truthy (get_or_none answer_data (u ''question'')) \<or>
     get_or_none answer_data (u ''type'') \<in>
       set [JStr (u ''Drag and Drop''), JStr (u ''Fill in the Blanks''),
            JStr (u ''True/False''), JStr (u ''Drag Text'')]"

text \<open>
  The branches of the loop body: the dict after the branch, or \<open>None\<close> for the
  \<open>continue\<close> of an image interaction.
\<close>

fun branch_data :: "py_builtins \<Rightarrow> branch \<Rightarrow> json \<Rightarrow> pydict \<Rightarrow> py_error + pydict option" where
  "branch_data B MultiChoice params answer_data =
     ebind (extract_multiple_choice_answers params) (\<lambda>mc_data.
       Inr (Some (dict_set (u ''type'') (JStr (u ''Multiple Choice''))
                    (dict_update answer_data mc_data))))"
| "branch_data B DragQuestion params answer_data =
     ebind (extract_drag_drop_answers B params) (\<lambda>dd_data.
       Inr (Some (dict_update answer_data dd_data)))"
| "branch_data B TrueFalse params answer_data =
     ebind (extract_true_false_answers B params) (\<lambda>tf_data.
       Inr (Some (dict_set (u ''type'') (JStr (u ''True/False''))
                    (dict_update answer_data tf_data))))"
| "branch_data B Blanks params answer_data =
     ebind (extract_fill_in_blanks_answers B params) (\<lambda>blanks_data.
       Inr (Some (dict_set (u ''type'') (JStr (u ''Fill in the Blanks''))
                    (dict_update answer_data blanks_data))))"
| "branch_data B Image params answer_data = Inr None"
| "branch_data B DragText params answer_data =
     ebind (extract_drag_text_answers params) (\<lambda>dragtext_data.
       Inr (Some (dict_set (u ''type'') (JStr (u ''Drag Text''))
                    (dict_update answer_data dragtext_data))))"
| "branch_data B Other params answer_data =
     Inr (Some (dict_set (u ''raw_params'') params
                  (dict_set (u ''type'') (JStr (u ''Other'')) answer_data)))"

text \<open>
  One pass through the loop body for the interaction and the current
  \<open>question_number\<close>: the record that is appended, if any.
\<close>

definition interaction_record :: "py_builtins \<Rightarrow> nat \<Rightarrow> json \<Rightarrow> py_error + pydict option" where
  "interaction_record B question_number interaction =
     ebind (dget interaction (u ''action'') (JObj [])) (\<lambda>action.
     ebind (dget action (u ''library'') (JStr [])) (\<lambda>library.
     ebind (dget action (u ''params'') (JObj [])) (\<lambda>params.
     ebind (dget interaction (u ''duration'') (JObj [])) (\<lambda>duration.
     ebind (dget duration (u ''from'') (JInt 0)) (\<lambda>time_from.
     ebind (dget duration (u ''to'') (JInt 0)) (\<lambda>time_to.
     ebind (format_2f B time_from) (\<lambda>from_text.
     ebind (format_2f B time_to) (\<lambda>to_text.
     ebind (dget action (u ''subContentId'') (JStr [])) (\<lambda>subcontent_id.
     ebind (dispatch library) (\<lambda>br.
     ebind (branch_data B br params
              [(u ''question_number'', JInt (int question_number)),
               (u ''library_type'', library),
               (u ''time_range'', JStr (from_text @ u ''s - '' @ to_text @ u ''s'')),
               (u ''subcontent_id'', subcontent_id)]) (\<lambda>r.
       case r of
         None \<Rightarrow> Inr None
       | Some answer_data \<Rightarrow> Inr (if kept answer_data then Some answer_data else None))))))))))))"

fun interactions_loop :: "py_builtins \<Rightarrow> json list \<Rightarrow> pydict list \<times> nat \<Rightarrow> py_error + pydict list" where
  "interactions_loop B [] (answers, question_number) = Inr answers"
| "interactions_loop B (interaction # rest) (answers, question_number) =
     ebind (interaction_record B question_number interaction) (\<lambda>r.
       case r of
         None \<Rightarrow> interactions_loop B rest (answers, question_number)
       | Some answer_data \<Rightarrow>
           interactions_loop B rest (answers @ [answer_data], question_number + 1))"

definition extract_all_answers :: "py_builtins \<Rightarrow> json \<Rightarrow> py_error + pydict list" where
  "extract_all_answers B content =
     ebind (dget content (u ''interactiveVideo'') (JObj [])) (\<lambda>iv.
     ebind (dget iv (u ''assets'') (JObj [])) (\<lambda>assets.
     ebind (dget assets (u ''interactions'') (JList [])) (\<lambda>interactions.
     ebind (py_iter interactions) (\<lambda>xs.
       interactions_loop B xs ([], 1)))))"

section \<open>Where the report is written\<close>

text \<open>
  \<open>os.path.basename\<close>, \<open>os.path.splitext\<close> and \<open>os.path.join\<close> as \<open>posixpath\<close> defines
  them (separator 47, extension separator 46). \<open>splitext\<close> splits at the last dot unless
  only dots precede it.
\<close>

definition ends_with :: "ustr \<Rightarrow> ustr \<Rightarrow> bool" where
  "ends_with suffix s = starts_with (rev suffix) (rev s)"

definition basename :: "ustr \<Rightarrow> ustr" where
  "basename p = rev (takeWhile (\<lambda>c. c \<noteq> 47) (rev p))"

definition splitext_root :: "ustr \<Rightarrow> ustr" where
  "splitext_root p =
     (let name = basename p;
          stem = rev (drop 1 (dropWhile (\<lambda>c. c \<noteq> 46) (rev name)))
      in if 46 \<in> set name \<and> (\<exists>c \<in> set stem. c \<noteq> 46)
         then take (length p - length name + length stem) p
         else p)"

definition path_join :: "ustr \<Rightarrow> ustr \<Rightarrow> ustr" where
  "path_join a b =
     (if starts_with [47] b then b
      else if a = [] \<or> ends_with [47] a then a @ b
      else a @ [47] @ b)"

text \<open>
  The path \<open>save_answers_to_file(output_path, original_input)\<close> opens, with \<open>cwd\<close> the
  result of \<open>os.getcwd()\<close>.
\<close>

definition save_answers_path :: "py_builtins \<Rightarrow> ustr \<Rightarrow> ustr option \<Rightarrow> ustr option \<Rightarrow> ustr" where
  "save_answers_path B cwd output_path original_input =
     (case output_path of
        Some path \<Rightarrow> path
      | None \<Rightarrow>
          (case original_input of
             Some inp \<Rightarrow>
               if inp \<noteq> [] \<and> ends_with (u ''.h5p'') (str_lower B inp)
               then path_join cwd (splitext_root (basename inp) @ u ''_answer.txt'')
               else path_join cwd (u ''extracted_answers.txt'')
           | None \<Rightarrow> path_join cwd (u ''extracted_answers.txt'')))"

text \<open>
  \<open>extract_answers(file_path)\<close> of \<open>extract_answers.py\<close>: the test that sends the input
  through the unpacking, and the call that writes the report.
\<close>

definition is_archive :: "py_builtins \<Rightarrow> ustr \<Rightarrow> bool" where
  "is_archive B file_path \<longleftrightarrow>
     ends_with (u ''.h5p'') (str_lower B file_path) \<or>
     ends_with (u ''.zip'') (str_lower B file_path)"

definition extract_answers_report_path :: "py_builtins \<Rightarrow> ustr \<Rightarrow> ustr \<Rightarrow> ustr" where
  "extract_answers_report_path B cwd file_path =
     save_answers_path B cwd None (Some file_path)"

text \<open>
  \<open>main()\<close> of \<open>h5p_answer_extractor.py\<close> calls \<open>save_answers_to_file(file_path)\<close>:
  the input path is the first positional argument, \<open>output_path\<close>.
\<close>

definition main_report_path :: "py_builtins \<Rightarrow> ustr \<Rightarrow> ustr \<Rightarrow> ustr" where
  "main_report_path B cwd file_path = save_answers_path B cwd (Some file_path) None"

section \<open>An instance of the built-ins for running examples\<close>

text \<open>
  The built-ins on ASCII text, booleans, integers and floats, where they do not need the
  character database. \<open>int\<close> of a string strips whitespace (the separators 28 to 31 are
  not stripped by \<open>int\<close>), takes a sign, and reads decimal digits that single underscores
  may separate; the limit that newer interpreters put on the number of digits is left out.
  \<open>format(x, ".2f")\<close> converts an integer to the nearest double, ties to even, with
  OverflowError beyond the largest double, and rounds the exact value of a float to two
  places, ties to even. \<open>str\<close> of a float or a container is not covered and left empty;
  no example below passes one to it.
\<close>

definition ascii_lower :: "nat \<Rightarrow> nat" where
  "ascii_lower c = (if 65 \<le> c \<and> c \<le> 90 then c + 32 else c)"

definition ascii_upper :: "nat \<Rightarrow> nat" where
  "ascii_upper c = (if 97 \<le> c \<and> c \<le> 122 then c - 32 else c)"

definition plain_capitalize :: "ustr \<Rightarrow> ustr" where
  "plain_capitalize s = (case s of [] \<Rightarrow> [] | c # cs \<Rightarrow> ascii_upper c # map ascii_lower cs)"

definition is_digit :: "nat \<Rightarrow> bool" where
  "is_digit c \<longleftrightarrow> 48 \<le> c \<and> c \<le> 57"

definition int_space :: "nat \<Rightarrow> bool" where
  "int_space c \<longleftrightarrow> is_space c \<and> \<not> (28 \<le> c \<and> c \<le> 31)"

definition digits_value :: "ustr \<Rightarrow> nat" where
  "digits_value ds = foldl (\<lambda>n c. 10 * n + (c - 48)) 0 ds"

definition digits_ok :: "ustr \<Rightarrow> bool" where
  "digits_ok ds \<longleftrightarrow>
     ds \<noteq> [] \<and> is_digit (hd ds) \<and> is_digit (last ds) \<and>
     list_all (\<lambda>c. is_digit c \<or> c = 95) ds \<and>
     successively (\<lambda>a b. \<not> (a = 95 \<and> b = 95)) ds"

definition plain_int_of_str :: "ustr \<Rightarrow> int option" where
  "plain_int_of_str s =
     (let t = rev (dropWhile int_space (rev (dropWhile int_space s)));
          neg = starts_with [45] t;
          ds = (if starts_with [45] t \<or> starts_with [43] t then drop 1 t else t)
      in if digits_ok ds
         then Some (if neg then - int (digits_value (filter is_digit ds))
                    else int (digits_value (filter is_digit ds)))
         else None)"

function bit_length :: "nat \<Rightarrow> nat" where
  "bit_length n = (if n = 0 then 0 else Suc (bit_length (n div 2)))"
  by pat_completeness auto
termination
  by (relation "measure id") auto

declare bit_length.simps [simp del]

text \<open>
  The value of \<open>float(n)\<close> for a natural number: \<open>n\<close> itself below \<open>2^53\<close>, else \<open>n\<close>
  rounded to 53 significant bits, \<open>None\<close> when the result is not below \<open>2^1024\<close>.
\<close>

definition to_double :: "nat \<Rightarrow> nat option" where
  "to_double n =
     (if n < 9007199254740992 then Some n
      else
        let e = bit_length n - 53; q = n div 2 ^ e; r = n mod 2 ^ e; h = 2 ^ (e - 1);
            q' = (if h < r \<or> (r = h \<and> odd q) then q + 1 else q)
        in if q' * 2 ^ e < 2 ^ 1024 then Some (q' * 2 ^ e) else None)"

definition round_half_even :: "rat \<Rightarrow> int" where
  "round_half_even r =
     (let f = \<lfloor>r\<rfloor>; d = r - of_int f
      in if d < 1 / 2 then f else if 1 / 2 < d then f + 1 else if even f then f else f + 1)"

definition fixed2 :: "rat \<Rightarrow> ustr" where
  "fixed2 q =
     (let n = nat (round_half_even (\<bar>q\<bar> * 100))
      in (if q < 0 then [45] else []) @ digits_of (n div 100) @
         [46, 48 + n mod 100 div 10, 48 + n mod 10])"

fun plain_format_2f :: "json \<Rightarrow> py_error + ustr" where
  "plain_format_2f (JInt i) =
     (case to_double (nat \<bar>i\<bar>) of
        None \<Rightarrow> Inl OverflowError
      | Some v \<Rightarrow> Inr ((if i < 0 then [45] else []) @ digits_of v @ u ''.00''))"
| "plain_format_2f (JBool b) = Inr (if b then u ''1.00'' else u ''0.00'')"
| "plain_format_2f (JFloat (Finite q)) = Inr (fixed2 q)"
| "plain_format_2f (JFloat NegZero) = Inr (u ''-0.00'')"
| "plain_format_2f (JFloat PosInf) = Inr (u ''inf'')"
| "plain_format_2f (JFloat NegInf) = Inr (u ''-inf'')"
| "plain_format_2f (JFloat NaN) = Inr (u ''nan'')"
| "plain_format_2f (JStr s) = Inl ValueError"
| "plain_format_2f _ = Inl TypeError"

definition plain_builtins :: py_builtins where
  "plain_builtins =
     \<lparr> str_lower = map ascii_lower,
       str_capitalize = plain_capitalize,
       int_of_str = plain_int_of_str,
       str_of_other = (\<lambda>v. []),
       format_2f = plain_format_2f \<rparr>"

section \<open>Notions used in the statements\<close>

text \<open>Two adjacent code points that are not both whitespace.\<close>

definition no_ws_pair :: "nat \<Rightarrow> nat \<Rightarrow> bool" where
  "no_ws_pair a b \<longleftrightarrow> \<not> (is_space a \<and> is_space b)"

text \<open>
  The pattern of a tag, \<open><[^>]+>\<close>, matches somewhere in the string: a 60 followed by at
  least one code point other than 62 and then a 62.
\<close>

fun has_tag :: "ustr \<Rightarrow> bool" where
  "has_tag [] = False"
| "has_tag (c # cs) =
     ((c = 60 \<and> takeWhile (\<lambda>x. x \<noteq> 62) cs \<noteq> [] \<and> dropWhile (\<lambda>x. x \<noteq> 62) cs \<noteq> [])
      \<or> has_tag cs)"

text \<open>
  \<open>edit xs ys\<close>: \<open>ys\<close> comes from \<open>xs\<close> by deleting code points other than the angle
  brackets and by replacing such code points with others of that kind. Every pass of the
  normalizer after the first is of this form.
\<close>

inductive edit :: "ustr \<Rightarrow> ustr \<Rightarrow> bool" where
  edit_Nil: "edit [] []"
| edit_keep: "edit xs ys \<Longrightarrow> edit (c # xs) (c # ys)"
| edit_drop: "edit xs ys \<Longrightarrow> c \<noteq> 60 \<Longrightarrow> c \<noteq> 62 \<Longrightarrow> edit (c # xs) ys"
| edit_swap: "edit xs ys \<Longrightarrow> c \<noteq> 60 \<Longrightarrow> c \<noteq> 62 \<Longrightarrow> d \<noteq> 60 \<Longrightarrow> d \<noteq> 62 \<Longrightarrow>
     edit (c # xs) (d # ys)"

text \<open>
  An entry of the \<open>answers\<close> list is flagged correct when its \<open>correct\<close> value is true
  in the sense of the \<open>if\<close> that tests it. \<open>flagged_positions\<close> lists the 0-based
  positions of the flagged entries in increasing order.
\<close>

definition flagged :: "json \<Rightarrow> bool" where
  "flagged answer \<longleftrightarrow>
     (case dget answer (u ''correct'') (JBool False) of Inr v \<Rightarrow> truthy v | Inl e \<Rightarrow> False)"

definition flagged_positions :: "json list \<Rightarrow> nat list" where
  "flagged_positions xs = filter (\<lambda>j. flagged (xs ! j)) [0..<length xs]"

text \<open>A Multiple Choice parameter tree with two answers, both flagged correct.\<close>

definition two_correct :: "json list" where
  "two_correct =
     [JObj [(u ''text'', JStr (u ''x'')), (u ''correct'', JBool True)],
      JObj [(u ''text'', JStr (u ''y'')), (u ''correct'', JBool True)]]"

definition mc_two_correct :: json where
  "mc_two_correct = JObj [(u ''question'', JStr (u ''Q'')), (u ''answers'', JList two_correct)]"

text \<open>
  The four entries \<open>answer_data\<close> starts with, and the \<open>type\<close> each branch of the
  dispatch leaves in it.
\<close>

definition base_data :: "nat \<Rightarrow> json \<Rightarrow> ustr \<Rightarrow> ustr \<Rightarrow> json \<Rightarrow> pydict" where
  "base_data n library from_text to_text sid =
     [(u ''question_number'', JInt (int n)),
      (u ''library_type'', library),
      (u ''time_range'', JStr (from_text @ u ''s - '' @ to_text @ u ''s'')),
      (u ''subcontent_id'', sid)]"

definition type_name :: "branch \<Rightarrow> ustr" where
  "type_name br = (case br of
      MultiChoice \<Rightarrow> u ''Multiple Choice'' | DragQuestion \<Rightarrow> u ''Drag and Drop''
    | TrueFalse \<Rightarrow> u ''True/False'' | Blanks \<Rightarrow> u ''Fill in the Blanks''
    | Image \<Rightarrow> [] | DragText \<Rightarrow> u ''Drag Text'' | Other \<Rightarrow> u ''Other'')"

section \<open>Example documents\<close>

text \<open>
  A Multiple Choice interaction with two answers, the second marked correct; an image
  interaction; an interaction of a library outside the dispatch; and a True/False
  interaction whose \<open>subContentId\<close> stands beside \<open>action\<close>, as the documented shape
  has it, and not inside it.
\<close>

definition ex_multichoice :: json where
  "ex_multichoice =
     JObj [(u ''action'',
              JObj [(u ''library'', JStr (u ''H5P.MultiChoice 1.16'')),
                    (u ''params'',
                       JObj [(u ''question'', JStr (u ''<p>Largest?</p>'')),
                             (u ''answers'',
                                JList [JObj [(u ''text'', JStr (u ''<div>Mars</div>'')),
                                             (u ''correct'', JBool False)],
                                       JObj [(u ''text'', JStr (u ''<div>Jupiter</div>'')),
                                             (u ''correct'', JBool True)]])]),
                    (u ''subContentId'', JStr (u ''id-1''))]),
           (u ''duration'', JObj [(u ''from'', JInt 5), (u ''to'', JInt 15)])]"

definition ex_image :: json where
  "ex_image =
     JObj [(u ''action'',
              JObj [(u ''library'', JStr (u ''H5P.Image 1.1'')), (u ''params'', JObj [])])]"

definition ex_text :: json where
  "ex_text =
     JObj [(u ''action'',
              JObj [(u ''library'', JStr (u ''H5P.Text 1.1'')),
                    (u ''params'', JObj [(u ''text'', JStr (u ''Welcome''))])])]"

definition ex_truefalse_params :: "(ustr \<times> json) list" where
  "ex_truefalse_params =
     [(u ''question'', JStr (u ''Is it?'')), (u ''correct'', JStr (u ''false''))]"

definition ex_truefalse_action :: json where
  "ex_truefalse_action =
     JObj [(u ''library'', JStr (u ''H5P.TrueFalse 1.8'')),
           (u ''params'', JObj ex_truefalse_params)]"

definition ex_truefalse :: json where
  "ex_truefalse =
     JObj [(u ''action'', ex_truefalse_action), (u ''subContentId'', JStr (u ''id-2''))]"

definition ex_document :: json where
  "ex_document =
     JObj [(u ''interactiveVideo'',
        JObj [(u ''assets'',
           JObj [(u ''interactions'',
              JList [ex_multichoice, ex_image, ex_text, ex_truefalse])])])]"

text \<open>The two records the extractor returns for \<open>ex_document\<close>.\<close>

definition ex_record_1 :: pydict where
  "ex_record_1 =
     [(u ''question_number'', JInt 1),
      (u ''library_type'', JStr (u ''H5P.MultiChoice 1.16'')),
      (u ''time_range'', JStr (u ''5.00s - 15.00s'')),
      (u ''subcontent_id'', JStr (u ''id-1'')),
      (u ''question'', JStr (u ''Largest?'')),
      (u ''answers'',
         JList [JObj [(u ''option'', JStr (u ''A'')), (u ''text'', JStr (u ''Mars'')),
                      (u ''is_correct'', JBool False)],
                JObj [(u ''option'', JStr (u ''B'')), (u ''text'', JStr (u ''Jupiter'')),
                      (u ''is_correct'', JBool True)]]),
      (u ''correct_answer'', JStr (u ''B'')),
      (u ''type'', JStr (u ''Multiple Choice''))]"

definition ex_record_2 :: pydict where
  "ex_record_2 =
     [(u ''question_number'', JInt 2),
      (u ''library_type'', JStr (u ''H5P.TrueFalse 1.8'')),
      (u ''time_range'', JStr (u ''0.00s - 0.00s'')),
      (u ''subcontent_id'', JStr []),
      (u ''question'', JStr (u ''Is it?'')),
      (u ''correct_answer'', JStr (u ''False'')),
      (u ''type'', JStr (u ''True/False''))]"

text \<open>
  A Multiple Choice interaction whose library identifier also contains \<open>DragText\<close>,
  and the record it yields as the first of a document.
\<close>

definition ex_both_action :: json where
  "ex_both_action =
     JObj [(u ''library'', JStr (u ''H5P.DragTextMultiChoice 1.0'')),
           (u ''params'', JObj [(u ''question'', JStr (u ''Pick''))])]"

definition ex_both :: json where
  "ex_both = JObj [(u ''action'', ex_both_action)]"

definition ex_record_both :: pydict where
  "ex_record_both =
     [(u ''question_number'', JInt 1),
      (u ''library_type'', JStr (u ''H5P.DragTextMultiChoice 1.0'')),
      (u ''time_range'', JStr (u ''0.00s - 0.00s'')),
      (u ''subcontent_id'', JStr []),
      (u ''question'', JStr (u ''Pick'')),
      (u ''answers'', JList []),
      (u ''correct_answer'', JNull),
      (u ''type'', JStr (u ''Multiple Choice''))]"

text \<open>
  A Fill in the Blanks interaction whose library identifier also contains \<open>Image\<close>,
  the record it yields as the first of a document, a document that holds it before the
  True/False example, and a Multiple Choice interaction without a question.
\<close>

definition ex_image_blanks_action :: json where
  "ex_image_blanks_action =
     JObj [(u ''library'', JStr (u ''H5P.ImageBlanks 1.0'')),
           (u ''params'', JObj [(u ''text'', JStr (u ''The *sky* is blue''))])]"

definition ex_image_blanks :: json where
  "ex_image_blanks = JObj [(u ''action'', ex_image_blanks_action)]"

definition ex_record_image_blanks :: pydict where
  "ex_record_image_blanks =
     [(u ''question_number'', JInt 1),
      (u ''library_type'', JStr (u ''H5P.ImageBlanks 1.0'')),
      (u ''time_range'', JStr (u ''0.00s - 0.00s'')),
      (u ''subcontent_id'', JStr []),
      (u ''question'', JStr (u ''The *sky* is blue'')),
      (u ''answers'', JList [JStr (u ''sky'')]),
      (u ''type'', JStr (u ''Fill in the Blanks''))]"

definition ex_image_document :: json where
  "ex_image_document =
     JObj [(u ''interactiveVideo'',
        JObj [(u ''assets'',
           JObj [(u ''interactions'', JList [ex_image_blanks, ex_truefalse])])])]"




section \<open>Notions used in the statements on Drag and Drop and on the asterisk scan\<close>

text \<open>The zone positions recorded for a drag item's text.\<close>

definition positions_of :: "matches \<Rightarrow> ustr \<Rightarrow> nat list" where
  "positions_of m t = (case map_of m t of None \<Rightarrow> [] | Some zs \<Rightarrow> zs)"

text \<open>
  The drag item an entry of \<open>correctElements\<close> refers to: the entry converts to an
  integer that is an index of \<open>drag_items\<close>, from the front or, when negative, from the
  end.
\<close>

definition referenced :: "py_builtins \<Rightarrow> ustr list \<Rightarrow> json \<Rightarrow> ustr option" where
  "referenced B drag_items e =
     (case py_int B e of
        Inr k \<Rightarrow>
          if 0 \<le> k \<and> k < int (length drag_items) then Some (drag_items ! nat k)
          else if - int (length drag_items) \<le> k \<and> k < 0
          then Some (drag_items ! nat (int (length drag_items) + k))
          else None
      | Inl err \<Rightarrow> None)"

text \<open>The entries the loop draws from a zone's \<open>correctElements\<close>.\<close>

definition entries_of :: "json \<Rightarrow> json list" where
  "entries_of zone =
     (case dget zone (u ''correctElements'') (JList []) of
        Inr ce \<Rightarrow> (case py_iter ce of Inr es \<Rightarrow> es | Inl err \<Rightarrow> [])
      | Inl err \<Rightarrow> [])"

text \<open>
  Modelled on the words of the specification: every substring delimited by a pair of
  asterisks, not nested, from left to right. The first asterisk opens a span, the next
  one closes it, and the search goes on behind the closing asterisk.
\<close>

function star_pairs :: "ustr \<Rightarrow> ustr list" where
  "star_pairs s =
     (case dropWhile (\<lambda>x. x \<noteq> 42) s of
        [] \<Rightarrow> []
      | a # after \<Rightarrow>
          (case dropWhile (\<lambda>x. x \<noteq> 42) after of
             [] \<Rightarrow> []
           | b # rest \<Rightarrow> takeWhile (\<lambda>x. x \<noteq> 42) after # star_pairs rest))"
  by pat_completeness auto
termination
proof (relation "measure length")
  fix s after rest :: ustr and a b :: nat
  assume 1: "dropWhile (\<lambda>x. x \<noteq> 42) s = a # after"
    and 2: "dropWhile (\<lambda>x. x \<noteq> 42) after = b # rest"
  have "length rest < length (dropWhile (\<lambda>x. x \<noteq> 42) after)" using 2 by simp
  also have "\<dots> \<le> length after" by (rule length_dropWhile_le)
  also have "\<dots> < length (dropWhile (\<lambda>x. x \<noteq> 42) s)" using 1 by simp
  also have "\<dots> \<le> length s" by (rule length_dropWhile_le)
  finally show "(rest, s) \<in> measure length" by simp
qed simp

declare star_pairs.simps [simp del]

text \<open>The lines of a text: the pieces between line feeds.\<close>

fun split_lines :: "ustr \<Rightarrow> ustr list" where
  "split_lines [] = [] # []"
| "split_lines (c # cs) =
     (if c = 10 then [] # split_lines cs
      else (case split_lines cs of l # ls \<Rightarrow> (c # l) # ls | [] \<Rightarrow> [c] # []))"


text \<open>
  The same two items with a zone whose entries are the string \<open>1\<close>, a string that is
  no number, and an index beyond the items.
\<close>

definition ex_drag :: json where
  "ex_drag =
     JObj [(u ''question'',
        JObj [(u ''task'',
           JObj [(u ''elements'',
                    JList [JObj [(u ''type'',
                                    JObj [(u ''library'', JStr (u ''H5P.AdvancedText 1.1'')),
                                          (u ''params'', JObj [(u ''text'', JStr (u ''Paris''))])])],
                           JObj [(u ''type'',
                                    JObj [(u ''library'', JStr (u ''H5P.AdvancedText 1.1'')),
                                          (u ''params'', JObj [(u ''text'', JStr (u ''Berlin''))])])]]),
                 (u ''dropZones'',
                    JList [JObj [(u ''label'', JStr (u ''<div>Germany</div>'')),
                                 (u ''correctElements'',
                                    JList [JStr (u ''1''), JStr (u ''x''), JInt 7])]])])])]"

text \<open>The same two items with a zone whose only entry is the number \<open>-1\<close>.\<close>

definition ex_drag_negative :: json where
  "ex_drag_negative =
     JObj [(u ''question'',
        JObj [(u ''task'',
           JObj [(u ''elements'',
                    JList [JObj [(u ''type'',
                                    JObj [(u ''library'', JStr (u ''H5P.AdvancedText 1.1'')),
                                          (u ''params'', JObj [(u ''text'', JStr (u ''Paris''))])])],
                           JObj [(u ''type'',
                                    JObj [(u ''library'', JStr (u ''H5P.AdvancedText 1.1'')),
                                          (u ''params'', JObj [(u ''text'', JStr (u ''Berlin''))])])]]),
                 (u ''dropZones'',
                    JList [JObj [(u ''label'', JStr (u ''Germany'')),
                                 (u ''correctElements'', JList [JInt (- 1)])]])])])]"

text \<open>
  The sentence of the specification's example; Fill in the Blanks parameters that hold it
  as two HTML fragments; and a text field whose only pair of asterisks encloses a line
  feed.
\<close>

definition ex_sentence :: ustr where
  "ex_sentence = u ''The *capital* of France is *Paris*''"

definition ex_fragments :: "json list" where
  "ex_fragments = [JStr (u ''<p>The *capital* of''), JStr (u ''France is <b>*Paris*</b></p>'')]"

definition ex_blanks_params :: "(ustr \<times> json) list" where
  "ex_blanks_params = [(u ''questions'', JList ex_fragments)]"

definition ex_two_lines :: ustr where
  "ex_two_lines = u ''*a'' @ [10] @ u ''b*''"

section \<open>The Text Normalizer\<close>

lemma successively_dropWhile:
  "successively P xs \<Longrightarrow> successively P (dropWhile R xs)"
  by (induction xs) (auto simp: successively_Cons)

lemma last_dropWhile:
  "dropWhile R xs \<noteq> [] \<Longrightarrow> last (dropWhile R xs) = last xs"
  by (induction xs) (auto split: if_splits)

lemma hd_collapse_dropWhile:
  assumes "collapse_ws (dropWhile is_space cs) \<noteq> []"
  shows "\<not> is_space (hd (collapse_ws (dropWhile is_space cs)))"
proof (cases "dropWhile is_space cs")
  case Nil
  with assms show ?thesis by simp
next
  case (Cons x xs)
  then have "\<not> is_space x" using hd_dropWhile [of is_space cs] by simp
  with Cons show ?thesis by simp
qed

lemma collapse_ws_successively:
  "successively no_ws_pair (collapse_ws s)"
proof (induction s rule: collapse_ws.induct)
  case 1
  then show ?case by simp
next
  case (2 c cs)
  show ?case
  proof (cases "is_space c")
    case True
    with 2 hd_collapse_dropWhile [of cs] show ?thesis
      by (auto simp: successively_Cons no_ws_pair_def)
  next
    case False
    with 2 show ?thesis by (simp add: successively_Cons no_ws_pair_def)
  qed
qed

lemma strip_successively:
  assumes "successively no_ws_pair s"
  shows "successively no_ws_pair (strip s)"
proof -
  have flip: "(\<lambda>x y. no_ws_pair y x) = no_ws_pair"
    by (auto simp: no_ws_pair_def fun_eq_iff)
  have "successively no_ws_pair (dropWhile is_space s)"
    using assms by (rule successively_dropWhile)
  then have "successively (\<lambda>x y. no_ws_pair y x) (dropWhile is_space s)"
    by (simp only: flip)
  then have "successively no_ws_pair (rev (dropWhile is_space s))"
    by simp
  then have "successively no_ws_pair (dropWhile is_space (rev (dropWhile is_space s)))"
    by (rule successively_dropWhile)
  then have "successively (\<lambda>x y. no_ws_pair y x)
      (dropWhile is_space (rev (dropWhile is_space s)))"
    by (simp only: flip)
  then show ?thesis
    by (simp add: strip_def)
qed

lemma strip_ends:
  assumes "strip s \<noteq> []"
  shows "\<not> is_space (hd (strip s))" and "\<not> is_space (last (strip s))"
proof -
  let ?d = "dropWhile is_space s"
  let ?e = "dropWhile is_space (rev ?d)"
  from assms have e: "?e \<noteq> []" by (simp add: strip_def)
  have d: "?d \<noteq> []"
  proof
    assume "?d = []"
    then have "?e = []" by (simp only: rev.simps dropWhile.simps)
    with e show False by simp
  qed
  have "hd (strip s) = last ?e" using e by (simp add: strip_def hd_rev)
  also have "\<dots> = last (rev ?d)" using e by (rule last_dropWhile)
  also have "\<dots> = hd ?d" using d by (simp add: last_rev)
  finally show "\<not> is_space (hd (strip s))" using hd_dropWhile [OF d] by simp
  have "last (strip s) = hd ?e" using e by (simp add: strip_def last_rev)
  then show "\<not> is_space (last (strip s))" using hd_dropWhile [OF e] by simp
qed

lemma clean_str_successively: "successively no_ws_pair (clean_str s)"
  unfolding clean_str_def by (rule strip_successively [OF collapse_ws_successively])

lemma clean_str_ends:
  "clean_str s \<noteq> [] \<Longrightarrow> \<not> is_space (hd (clean_str s)) \<and> \<not> is_space (last (clean_str s))"
  unfolding clean_str_def using strip_ends by blast

lemma tag_start_iff:
  "(takeWhile (\<lambda>x. x \<noteq> 62) cs \<noteq> [] \<and> dropWhile (\<lambda>x. x \<noteq> (62::nat)) cs \<noteq> []) \<longleftrightarrow>
     (cs \<noteq> [] \<and> hd cs \<noteq> 62 \<and> 62 \<in> set cs)"
  by (cases cs) (auto simp: dropWhile_eq_Nil_conv)

lemma edit_refl: "edit xs xs"
  by (induction xs) (auto intro: edit.intros)

lemma edit_drop_prefix:
  "edit xs ys \<Longrightarrow> \<forall>c \<in> set ds. c \<noteq> 60 \<and> c \<noteq> 62 \<Longrightarrow> edit (ds @ xs) ys"
  by (induction ds) (auto intro: edit.intros)

lemma edit_drop_suffix:
  "\<forall>c \<in> set ds. c \<noteq> 60 \<and> c \<noteq> 62 \<Longrightarrow> edit (xs @ ds) xs"
  by (induction xs) (auto intro: edit.intros edit_drop_prefix [of "[]" "[]", simplified])

lemma edit_mem62: "edit xs ys \<Longrightarrow> 62 \<in> set ys \<Longrightarrow> 62 \<in> set xs"
  by (induction rule: edit.induct) auto

lemma edit_hd: "edit xs ys \<Longrightarrow> ys \<noteq> [] \<Longrightarrow> hd ys \<noteq> 62 \<Longrightarrow> xs \<noteq> [] \<and> hd xs \<noteq> 62"
  by (induction rule: edit.induct) auto

lemma has_tag_Cons:
  "has_tag (c # cs) \<longleftrightarrow> (c = 60 \<and> cs \<noteq> [] \<and> hd cs \<noteq> 62 \<and> 62 \<in> set cs) \<or> has_tag cs"
  using tag_start_iff [of cs] by simp

lemma edit_has_tag: "edit xs ys \<Longrightarrow> has_tag ys \<Longrightarrow> has_tag xs"
proof (induction rule: edit.induct)
  case edit_Nil
  then show ?case by simp
next
  case (edit_keep xs ys c)
  from edit_keep.prems
  consider "c = 60" "ys \<noteq> []" "hd ys \<noteq> 62" "62 \<in> set ys" | "has_tag ys"
    unfolding has_tag_Cons by blast
  then show ?case
  proof cases
    case 1
    with edit_keep.hyps edit_mem62 [of xs ys] edit_hd [of xs ys]
    show ?thesis unfolding has_tag_Cons by blast
  next
    case 2
    with edit_keep.IH show ?thesis unfolding has_tag_Cons by blast
  qed
next
  case (edit_drop xs ys c)
  then show ?case unfolding has_tag_Cons by blast
next
  case (edit_swap xs ys c d)
  then show ?case unfolding has_tag_Cons by blast
qed

lemma strip_tags_mem62: "62 \<in> set (strip_tags s) \<Longrightarrow> 62 \<in> set s"
proof (induction s rule: strip_tags.induct)
  case 1
  then show ?case by simp
next
  case (2 c cs)
  show ?case
  proof (cases "c = 60 \<and> takeWhile (\<lambda>x. x \<noteq> 62) cs \<noteq> [] \<and> dropWhile (\<lambda>x. x \<noteq> 62) cs \<noteq> []")
    case True
    with 2 have "62 \<in> set (tl (dropWhile (\<lambda>x. x \<noteq> 62) cs))" by simp
    then have "62 \<in> set (dropWhile (\<lambda>x. x \<noteq> 62) cs)"
      using list.set_sel(2) True by metis
    then have "62 \<in> set cs" by (metis set_dropWhileD)
    then show ?thesis by simp
  next
    case False
    with 2 show ?thesis by (auto split: if_splits)
  qed
qed

lemma strip_tags_hd62: "cs \<noteq> [] \<Longrightarrow> hd cs = 62 \<Longrightarrow> strip_tags cs \<noteq> [] \<and> hd (strip_tags cs) = 62"
  by (cases cs) auto

lemma strip_tags_no_tag: "\<not> has_tag (strip_tags s)"
proof (induction s rule: strip_tags.induct)
  case 1
  then show ?case by simp
next
  case (2 c cs)
  show ?case
  proof (cases "c = 60 \<and> takeWhile (\<lambda>x. x \<noteq> 62) cs \<noteq> [] \<and> dropWhile (\<lambda>x. x \<noteq> 62) cs \<noteq> []")
    case True
    with 2 show ?thesis by simp
  next
    case False
    then have eq: "strip_tags (c # cs) = c # strip_tags cs" by auto
    from False 2 have ih: "\<not> has_tag (strip_tags cs)" by blast
    from False have nostart: "c \<noteq> 60 \<or> cs = [] \<or> hd cs = 62 \<or> 62 \<notin> set cs"
      using tag_start_iff [of cs] by blast
    have "\<not> (c = 60 \<and> strip_tags cs \<noteq> [] \<and> hd (strip_tags cs) \<noteq> 62 \<and> 62 \<in> set (strip_tags cs))"
    proof
      assume a: "c = 60 \<and> strip_tags cs \<noteq> [] \<and> hd (strip_tags cs) \<noteq> 62 \<and> 62 \<in> set (strip_tags cs)"
      then have "62 \<in> set cs" using strip_tags_mem62 by blast
      moreover from a have "cs \<noteq> []" by auto
      moreover from a have "hd cs \<noteq> 62" using strip_tags_hd62 [of cs] \<open>cs \<noteq> []\<close> by blast
      ultimately show False using nostart a by blast
    qed
    with ih show ?thesis unfolding eq has_tag_Cons by blast
  qed
qed

lemma space_not_bracket: "is_space c \<Longrightarrow> c \<noteq> 60 \<and> c \<noteq> 62"
  by (auto simp: is_space_def)

lemma letter_not_bracket: "is_ascii_letter c \<Longrightarrow> c \<noteq> 60 \<and> c \<noteq> 62"
  by (auto simp: is_ascii_letter_def)

lemma edit_replace_nbsp: "edit s (replace_nbsp s)"
proof (induction s rule: replace_nbsp.induct)
  case 1
  then show ?case by (simp add: edit_Nil)
next
  case (2 c cs)
  show ?case
  proof (cases "starts_with (u ''&nbsp;'') (c # cs)")
    case True
    then obtain rest where cs: "c = 38" "cs = [110, 98, 115, 112, 59] @ rest"
      by (cases cs; cases "tl cs"; cases "tl (tl cs)"; cases "tl (tl (tl cs))";
          cases "tl (tl (tl (tl cs)))") (auto simp: u_def)
    with 2 True have "edit rest (replace_nbsp rest)" by simp
    then have "edit ([110, 98, 115, 112, 59] @ rest) (replace_nbsp rest)"
      by (rule edit_drop_prefix) simp
    then have "edit (38 # [110, 98, 115, 112, 59] @ rest) (32 # replace_nbsp rest)"
      by (rule edit_swap) simp_all
    with True cs show ?thesis by simp
  next
    case False
    with 2 show ?thesis by (simp add: edit_keep)
  qed
qed

lemma edit_strip_entities: "edit s (strip_entities s)"
proof (induction s rule: strip_entities.induct)
  case 1
  then show ?case by (simp add: edit_Nil)
next
  case (2 c cs)
  let ?run = "takeWhile is_ascii_letter cs"
  let ?rest = "dropWhile is_ascii_letter cs"
  show ?case
  proof (cases "c = 38 \<and> ?run \<noteq> [] \<and> starts_with [59] ?rest")
    case True
    then obtain r where r: "?rest = 59 # r" by (cases ?rest) auto
    from True 2 have "edit (tl ?rest) (strip_entities (tl ?rest))" by simp
    then have "edit r (strip_entities r)" using r by simp
    then have "edit ((c # ?run @ [59]) @ r) (strip_entities r)"
      using True by (intro edit_drop_prefix) (auto dest: set_takeWhileD letter_not_bracket)
    moreover have "c # cs = (c # ?run @ [59]) @ r"
      using r takeWhile_dropWhile_id [of is_ascii_letter cs] by simp
    ultimately show ?thesis using True r by simp
  next
    case False
    with 2 show ?thesis by (auto simp: edit_keep)
  qed
qed

lemma edit_collapse_ws: "edit s (collapse_ws s)"
proof (induction s rule: collapse_ws.induct)
  case 1
  then show ?case by (simp add: edit_Nil)
next
  case (2 c cs)
  show ?case
  proof (cases "is_space c")
    case True
    with 2 have "edit (dropWhile is_space cs) (collapse_ws (dropWhile is_space cs))" by simp
    then have "edit (takeWhile is_space cs @ dropWhile is_space cs)
                 (collapse_ws (dropWhile is_space cs))"
      by (rule edit_drop_prefix) (auto dest: set_takeWhileD space_not_bracket)
    then have "edit cs (collapse_ws (dropWhile is_space cs))" by simp
    then have "edit (c # cs) (32 # collapse_ws (dropWhile is_space cs))"
      using space_not_bracket [OF True] by (intro edit_swap) simp_all
    with True show ?thesis by simp
  next
    case False
    with 2 show ?thesis by (simp add: edit_keep)
  qed
qed

lemma edit_dropWhile_space: "edit s (dropWhile is_space s)"
proof -
  have "edit (takeWhile is_space s @ dropWhile is_space s) (dropWhile is_space s)"
    by (rule edit_drop_prefix [OF edit_refl]) (auto dest: set_takeWhileD space_not_bracket)
  then show ?thesis by simp
qed

lemma edit_strip_right: "edit s (rev (dropWhile is_space (rev s)))"
proof -
  have "s = rev (dropWhile is_space (rev s)) @ rev (takeWhile is_space (rev s))"
    by (metis rev_append rev_rev_ident takeWhile_dropWhile_id)
  moreover have "edit (rev (dropWhile is_space (rev s)) @ rev (takeWhile is_space (rev s)))
                   (rev (dropWhile is_space (rev s)))"
    by (rule edit_drop_suffix) (auto dest: set_takeWhileD space_not_bracket)
  ultimately show ?thesis by simp
qed

lemma clean_str_no_tag: "\<not> has_tag (clean_str s)"
proof
  assume "has_tag (clean_str s)"
  then have "has_tag (dropWhile is_space (collapse_ws (strip_entities (replace_nbsp (strip_tags s)))))"
    unfolding clean_str_def strip_def by (rule edit_has_tag [OF edit_strip_right])
  then have "has_tag (collapse_ws (strip_entities (replace_nbsp (strip_tags s))))"
    by (rule edit_has_tag [OF edit_dropWhile_space])
  then have "has_tag (strip_entities (replace_nbsp (strip_tags s)))"
    by (rule edit_has_tag [OF edit_collapse_ws])
  then have "has_tag (replace_nbsp (strip_tags s))"
    by (rule edit_has_tag [OF edit_strip_entities])
  then have "has_tag (strip_tags s)"
    by (rule edit_has_tag [OF edit_replace_nbsp])
  then show False using strip_tags_no_tag by blast
qed

lemma edit_angles:
  "edit xs ys \<Longrightarrow> filter (\<lambda>c. c = 60 \<or> c = 62) ys = filter (\<lambda>c. c = 60 \<or> c = 62) xs"
  by (induction rule: edit.induct) auto

lemma clean_str_angles:
  "filter (\<lambda>c. c = 60 \<or> c = 62) (clean_str s) = filter (\<lambda>c. c = 60 \<or> c = 62) (strip_tags s)"
proof -
  let ?f = "filter (\<lambda>c. c = (60::nat) \<or> c = 62)"
  have "?f (clean_str s) = ?f (dropWhile is_space (collapse_ws (strip_entities (replace_nbsp (strip_tags s)))))"
    unfolding clean_str_def strip_def by (rule edit_angles [OF edit_strip_right])
  also have "\<dots> = ?f (collapse_ws (strip_entities (replace_nbsp (strip_tags s))))"
    by (rule edit_angles [OF edit_dropWhile_space])
  also have "\<dots> = ?f (strip_entities (replace_nbsp (strip_tags s)))"
    by (rule edit_angles [OF edit_collapse_ws])
  also have "\<dots> = ?f (replace_nbsp (strip_tags s))"
    by (rule edit_angles [OF edit_strip_entities])
  also have "\<dots> = ?f (strip_tags s)"
    by (rule edit_angles [OF edit_replace_nbsp])
  finally show ?thesis .
qed

lemma strip_tags_no_tag_id: "\<not> has_tag s \<Longrightarrow> strip_tags s = s"
  by (induction s rule: strip_tags.induct) auto

lemma takeWhile_until:
  "x \<notin> set run \<Longrightarrow> takeWhile (\<lambda>c. c \<noteq> x) (run @ x # rest) = run"
  by (induction run) auto

lemma dropWhile_until:
  "x \<notin> set run \<Longrightarrow> dropWhile (\<lambda>c. c \<noteq> x) (run @ x # rest) = x # rest"
  by (induction run) auto

lemma strip_tags_first_tag:
  "\<not> has_tag (pre @ [62]) \<Longrightarrow> (pre \<noteq> [] \<longrightarrow> last pre \<noteq> 60) \<Longrightarrow> run \<noteq> [] \<Longrightarrow>
   62 \<notin> set run \<Longrightarrow>
     strip_tags (pre @ 60 # run @ 62 # rest) = pre @ strip_tags rest"
proof (induction pre)
  case Nil
  then show ?case by (simp add: takeWhile_until dropWhile_until)
next
  case (Cons c pre)
  from Cons.prems(1) have nt: "\<not> has_tag (pre @ [62])"
    and ns: "\<not> (c = 60 \<and> pre @ [62] \<noteq> [] \<and> hd (pre @ [62]) \<noteq> 62 \<and> 62 \<in> set (pre @ [62]))"
    unfolding append_Cons has_tag_Cons by blast+
  show ?case
  proof (cases "c = 60")
    case False
    with Cons nt show ?thesis by (cases pre) auto
  next
    case True
    with Cons.prems(2) have pne: "pre \<noteq> []" by auto
    with ns True have "hd pre = 62" by (cases pre) auto
    with pne obtain pre' where p: "pre = 62 # pre'" by (cases pre) auto
    from Cons.prems(2) pne have "pre \<noteq> [] \<longrightarrow> last pre \<noteq> 60" by simp
    from Cons.IH [OF nt this Cons.prems(3,4)] True p show ?thesis by simp
  qed
qed

lemma has_tag_first_tag:
  "has_tag s \<Longrightarrow>
     \<exists>pre run rest. s = pre @ 60 # run @ 62 # rest \<and> \<not> has_tag (pre @ [62]) \<and>
       (pre \<noteq> [] \<longrightarrow> last pre \<noteq> 60) \<and> run \<noteq> [] \<and> 62 \<notin> set run"
proof (induction s)
  case Nil
  then show ?case by simp
next
  case (Cons c cs)
  show ?case
  proof (cases "c = 60 \<and> cs \<noteq> [] \<and> hd cs \<noteq> 62 \<and> 62 \<in> set cs")
    case True
    then obtain run rest where "cs = run @ 62 # rest" "62 \<notin> set run"
      using split_list_first [of 62 cs] by blast
    with True have "c # cs = [] @ 60 # run @ 62 # rest \<and> \<not> has_tag ([] @ [62]) \<and>
       ([] \<noteq> [] \<longrightarrow> last [] \<noteq> (60::nat)) \<and> run \<noteq> [] \<and> 62 \<notin> set run"
      by (cases run) auto
    then show ?thesis by blast
  next
    case False
    with Cons.prems have "has_tag cs" unfolding has_tag_Cons by blast
    from Cons.IH [OF this] obtain pre run rest where
      s: "cs = pre @ 60 # run @ 62 # rest" and nt: "\<not> has_tag (pre @ [62])" and
      l: "pre \<noteq> [] \<longrightarrow> last pre \<noteq> 60" and r: "run \<noteq> []" "62 \<notin> set run"
      by blast
    from False s r have c: "c \<noteq> 60 \<or> (pre \<noteq> [] \<and> hd pre = 62)"
      by (cases pre; cases run) auto
    have "\<not> has_tag ((c # pre) @ [62])"
      unfolding append_Cons has_tag_Cons using nt c by (cases pre) auto
    moreover have "c # pre \<noteq> [] \<longrightarrow> last (c # pre) \<noteq> 60" using l c by auto
    moreover have "c # cs = (c # pre) @ 60 # run @ 62 # rest" using s by simp
    ultimately show ?thesis using r by blast
  qed
qed

text \<open>
  C4 (as amended). For every input string the normalizer returns a text with no two
  adjacent whitespace characters, with no whitespace at either end, and in which the tag
  pattern matches nowhere. Its angle brackets (code points 60 and 62) are, in order, the
  ones the tag removal leaves: the later passes neither delete nor add any. The tag
  removal returns a text without a tag unchanged; a text with a tag splits at its first
  tag into the part before it, in which no tag begins, the tag, and the rest, and the
  removal keeps the part before, drops the tag and goes on with the rest. So a bracket
  outside every tag stays in the text. The empty string and \<open>None\<close> give the empty
  string.
\<close>

theorem clean_html_text_normal_form:
  "(\<exists>out. clean_html_text (JStr s) = Inr out \<and>
      (\<forall>i. Suc i < length out \<longrightarrow> \<not> (is_space (out ! i) \<and> is_space (out ! Suc i))) \<and>
      (out \<noteq> [] \<longrightarrow> \<not> is_space (hd out) \<and> \<not> is_space (last out)) \<and>
      \<not> has_tag out \<and>
      filter (\<lambda>c. c = 60 \<or> c = 62) out = filter (\<lambda>c. c = 60 \<or> c = 62) (strip_tags s) \<and>
      (\<not> has_tag s \<longrightarrow>
         filter (\<lambda>c. c = 60 \<or> c = 62) out = filter (\<lambda>c. c = 60 \<or> c = 62) s)) \<and>
   (\<not> has_tag s \<longrightarrow> strip_tags s = s) \<and>
   (has_tag s \<longrightarrow>
      (\<exists>pre run rest. s = pre @ 60 # run @ 62 # rest \<and> \<not> has_tag (pre @ [62]) \<and>
         (pre \<noteq> [] \<longrightarrow> last pre \<noteq> 60) \<and> run \<noteq> [] \<and> 62 \<notin> set run)) \<and>
   (\<not> has_tag (pre @ [62]) \<and> (pre \<noteq> [] \<longrightarrow> last pre \<noteq> 60) \<and> run \<noteq> [] \<and>
    62 \<notin> set run \<longrightarrow>
      strip_tags (pre @ 60 # run @ 62 # rest) = pre @ strip_tags rest) \<and>
   clean_html_text (JStr []) = Inr [] \<and> clean_html_text JNull = Inr []"
proof -
  have a: "filter (\<lambda>c. c = 60 \<or> c = 62) (clean_text s) =
      filter (\<lambda>c. c = 60 \<or> c = 62) (strip_tags s)"
    by (simp add: clean_text_def clean_str_angles)
  have n: "\<forall>i. Suc i < length (clean_text s) \<longrightarrow>
      \<not> (is_space (clean_text s ! i) \<and> is_space (clean_text s ! Suc i))"
  proof (cases "s = []")
    case True
    then show ?thesis by (simp add: clean_text_def)
  next
    case False
    have "successively no_ws_pair (clean_str s)" by (rule clean_str_successively)
    then have "\<forall>i. Suc i < length (clean_str s) \<longrightarrow>
        no_ws_pair (clean_str s ! i) (clean_str s ! Suc i)"
      by (simp add: successively_conv_nth)
    with False show ?thesis unfolding no_ws_pair_def by (simp add: clean_text_def)
  qed
  have e: "clean_text s \<noteq> [] \<longrightarrow>
      \<not> is_space (hd (clean_text s)) \<and> \<not> is_space (last (clean_text s))"
    using clean_str_ends [of s] by (simp add: clean_text_def)
  have t: "\<not> has_tag (clean_text s)"
    using clean_str_no_tag [of s] by (simp add: clean_text_def)
  have i: "\<not> has_tag s \<longrightarrow> strip_tags s = s"
    using strip_tags_no_tag_id by blast
  have l: "\<not> has_tag (pre @ [62]) \<and> (pre \<noteq> [] \<longrightarrow> last pre \<noteq> 60) \<and> run \<noteq> [] \<and>
    62 \<notin> set run \<longrightarrow>
      strip_tags (pre @ 60 # run @ 62 # rest) = pre @ strip_tags rest"
    using strip_tags_first_tag by blast
  have h: "has_tag s \<longrightarrow>
      (\<exists>pre run rest. s = pre @ 60 # run @ 62 # rest \<and> \<not> has_tag (pre @ [62]) \<and>
         (pre \<noteq> [] \<longrightarrow> last pre \<noteq> 60) \<and> run \<noteq> [] \<and> 62 \<notin> set run)"
    using has_tag_first_tag by blast
  from a i have k: "\<not> has_tag s \<longrightarrow>
      filter (\<lambda>c. c = 60 \<or> c = 62) (clean_text s) = filter (\<lambda>c. c = 60 \<or> c = 62) s"
    by simp
  have c: "clean_html_text (JStr s) = Inr (clean_text s)" by simp
  have z: "clean_html_text (JStr []) = Inr [] \<and> clean_html_text JNull = Inr []"
    by (simp add: clean_text_def)
  from c a n e t k have
    "\<exists>out. clean_html_text (JStr s) = Inr out \<and>
      (\<forall>i. Suc i < length out \<longrightarrow> \<not> (is_space (out ! i) \<and> is_space (out ! Suc i))) \<and>
      (out \<noteq> [] \<longrightarrow> \<not> is_space (hd out) \<and> \<not> is_space (last out)) \<and>
      \<not> has_tag out \<and>
      filter (\<lambda>c. c = 60 \<or> c = 62) out = filter (\<lambda>c. c = 60 \<or> c = 62) (strip_tags s) \<and>
      (\<not> has_tag s \<longrightarrow>
         filter (\<lambda>c. c = 60 \<or> c = 62) out = filter (\<lambda>c. c = 60 \<or> c = 62) s)"
    by blast
  with i h l z show ?thesis by blast
qed

theorem clean_html_text_normal_form_witness:
  "clean_html_text (JStr (u ''<p>a &nbsp;<b>b</b>&amp;</p> '')) = Inr (u ''a b'') \<and>
   Suc 0 < length (u ''a b'') \<and>
   \<not> (is_space (u ''a b'' ! 0) \<and> is_space (u ''a b'' ! Suc 0)) \<and>
   u ''a b'' \<noteq> [] \<and> \<not> is_space (hd (u ''a b'')) \<and> \<not> is_space (last (u ''a b'')) \<and>
   \<not> has_tag (u ''a b'') \<and>
   has_tag (u ''<p>a &nbsp;<b>b</b>&amp;</p> '') \<and>
   \<not> has_tag (u ''x > 1 <> 2 < y'') \<and>
   strip_tags (u ''x > 1 <> 2 < y'') = u ''x > 1 <> 2 < y'' \<and>
   clean_html_text (JStr (u ''x > 1 <> 2 < y'')) = Inr (u ''x > 1 <> 2 < y'') \<and>
   filter (\<lambda>c. c = 60 \<or> c = 62) (u ''x > 1 <> 2 < y'') = u ''><><'' \<and>
   \<not> has_tag (u ''a<>'' @ [62]) \<and> u ''a<>'' \<noteq> [] \<and> last (u ''a<>'') \<noteq> 60 \<and>
   u ''i'' \<noteq> [] \<and> 62 \<notin> set (u ''i'') \<and>
   strip_tags (u ''a<>'' @ 60 # u ''i'' @ 62 # u ''b<'') = u ''a<>b<''"
  using clean_html_text_normal_form [of "u ''<p>a &nbsp;<b>b</b>&amp;</p> ''" "u ''a<>''" "u ''i''"
      "u ''b<''"]
    clean_html_text_normal_form [of "u ''x > 1 <> 2 < y''" "u ''a<>''" "u ''i''" "u ''b<''"]
  by (simp add: clean_text_def clean_str_def strip_def u_def is_space_def is_ascii_letter_def)

text \<open>
  C4 as stated fails: the text \<open>1 < 2\<close> holds no tag, is returned unchanged and still
  contains the code point 60.
\<close>

theorem clean_html_text_keeps_angle_counterexample:
  "clean_html_text (JStr (u ''1 < 2'')) = Inr (u ''1 < 2'') \<and> 60 \<in> set (u ''1 < 2'')"
  by (simp add: clean_text_def clean_str_def strip_def u_def is_space_def is_ascii_letter_def)

section \<open>Multiple Choice\<close>

lemma ebind_Inr_iff: "ebind m f = Inr y \<longleftrightarrow> (\<exists>v. m = Inr v \<and> f v = Inr y)"
  by (cases m) auto

lemma flagged_positions_Nil: "flagged_positions [] = []"
  by (simp add: flagged_positions_def)

lemma flagged_positions_Cons:
  "flagged_positions (x # xs) =
     (if flagged x then [0] else []) @ map Suc (flagged_positions xs)"
proof -
  have "[0..<length (x # xs)] = 0 # map Suc [0..<length xs]"
    by (simp add: upt_conv_Cons map_Suc_upt del: upt_Suc)
  then show ?thesis
    by (simp add: flagged_positions_def filter_map comp_def)
qed

lemma mc_loop_correct_answer:
  "mc_loop i xs (opts, ca) = Inr (opts', ca') \<Longrightarrow>
     ca' = (if flagged_positions xs = [] then ca
            else JStr [65 + i + last (flagged_positions xs)])"
proof (induction xs arbitrary: i opts ca)
  case Nil
  then show ?case by (simp add: flagged_positions_Nil)
next
  case (Cons x xs)
  from Cons.prems obtain t answer_text is_correct label where
    c: "dget x (u ''correct'') (JBool False) = Inr is_correct" and
    l: "py_chr (65 + i) = Inr label" and
    r: "mc_loop (Suc i) xs
          (opts @ [JObj [(u ''option'', JStr label), (u ''text'', JStr answer_text),
                         (u ''is_correct'', is_correct)]],
           if truthy is_correct then JStr label else ca) = Inr (opts', ca')"
    by (auto simp: ebind_Inr_iff)
  from l have label: "label = [65 + i]" by (simp add: py_chr_def split: if_splits)
  from c have f: "flagged x = truthy is_correct" by (simp add: flagged_def)
  from Cons.IH [OF r] have
    "ca' = (if flagged_positions xs = [] then (if truthy is_correct then JStr label else ca)
            else JStr [65 + Suc i + last (flagged_positions xs)])" .
  then show ?case
    by (simp add: flagged_positions_Cons f label last_map)
qed

text \<open>
  C1 (as amended). For every Multiple Choice parameter tree whose \<open>answers\<close> is a list
  and on which the extraction returns, \<open>correct_answer\<close> is the capital-letter label
  (code point 65 plus the position) of the last entry flagged correct, and \<open>None\<close> when
  no entry is flagged: the loop overwrites the label at every flagged entry.
\<close>

theorem correct_answer_is_last_flagged:
  assumes "extract_multiple_choice_answers params = Inr d"
    and "dget params (u ''answers'') (JList []) = Inr (JList xs)"
  shows "get_or_none d (u ''correct_answer'') =
     (if flagged_positions xs = [] then JNull
      else JStr [65 + last (flagged_positions xs)])"
proof -
  from assms obtain opts ca where
    l: "mc_loop 0 xs ([], JNull) = Inr (opts, ca)" and
    d: "map_of d (u ''correct_answer'') = Some ca"
    by (auto simp: extract_multiple_choice_answers_def ebind_Inr_iff u_def)
  from mc_loop_correct_answer [OF l] d show ?thesis
    by (simp add: get_or_none_def)
qed

lemma mc_two_correct_result:
  "extract_multiple_choice_answers mc_two_correct =
     Inr [(u ''question'', JStr (u ''Q'')),
          (u ''answers'', JList
             [JObj [(u ''option'', JStr (u ''A'')), (u ''text'', JStr (u ''x'')),
                    (u ''is_correct'', JBool True)],
              JObj [(u ''option'', JStr (u ''B'')), (u ''text'', JStr (u ''y'')),
                    (u ''is_correct'', JBool True)]]),
          (u ''correct_answer'', JStr (u ''B''))]"
  by (simp add: extract_multiple_choice_answers_def mc_two_correct_def two_correct_def
      py_chr_def clean_text_def clean_str_def strip_def u_def is_space_def is_ascii_letter_def)

lemma two_correct_positions: "flagged_positions two_correct = [0, 1]"
  by (simp add: two_correct_def flagged_positions_def flagged_def u_def upt_conv_Cons)

theorem correct_answer_is_last_flagged_witness:
  "extract_multiple_choice_answers mc_two_correct =
     Inr [(u ''question'', JStr (u ''Q'')),
          (u ''answers'', JList
             [JObj [(u ''option'', JStr (u ''A'')), (u ''text'', JStr (u ''x'')),
                    (u ''is_correct'', JBool True)],
              JObj [(u ''option'', JStr (u ''B'')), (u ''text'', JStr (u ''y'')),
                    (u ''is_correct'', JBool True)]]),
          (u ''correct_answer'', JStr (u ''B''))] \<and>
   dget mc_two_correct (u ''answers'') (JList []) = Inr (JList two_correct) \<and>
   get_or_none
     [(u ''question'', JStr (u ''Q'')),
      (u ''answers'', JList
         [JObj [(u ''option'', JStr (u ''A'')), (u ''text'', JStr (u ''x'')),
                (u ''is_correct'', JBool True)],
          JObj [(u ''option'', JStr (u ''B'')), (u ''text'', JStr (u ''y'')),
                (u ''is_correct'', JBool True)]]),
      (u ''correct_answer'', JStr (u ''B''))] (u ''correct_answer'') = JStr [65 + 1]"
proof -
  have a: "dget mc_two_correct (u ''answers'') (JList []) = Inr (JList two_correct)"
    by (simp add: mc_two_correct_def u_def)
  show ?thesis
    using correct_answer_is_last_flagged [OF mc_two_correct_result a] mc_two_correct_result a
    by (simp add: two_correct_positions)
qed

text \<open>
  C1 as stated fails: with both entries flagged, the first flagged entry is at position
  0 (label A) and the extracted \<open>correct_answer\<close> is B.
\<close>

theorem correct_answer_not_first_counterexample:
  "extract_multiple_choice_answers mc_two_correct =
     Inr [(u ''question'', JStr (u ''Q'')),
          (u ''answers'', JList
             [JObj [(u ''option'', JStr (u ''A'')), (u ''text'', JStr (u ''x'')),
                    (u ''is_correct'', JBool True)],
              JObj [(u ''option'', JStr (u ''B'')), (u ''text'', JStr (u ''y'')),
                    (u ''is_correct'', JBool True)]]),
          (u ''correct_answer'', JStr (u ''B''))] \<and>
   hd (flagged_positions two_correct) = 0 \<and> u ''B'' \<noteq> [65 + 0]"
  using mc_two_correct_result two_correct_positions by (simp add: u_def)

section \<open>The records of the Answer Extractor\<close>

lemma get_or_none_dict_set:
  "get_or_none (dict_set k v d) k' = (if k' = k then v else get_or_none d k')"
  by (induction d) (auto simp: get_or_none_def)

lemma get_or_none_Cons:
  "get_or_none ((k, v) # d) k' = (if k' = k then v else get_or_none d k')"
  by (simp add: get_or_none_def)

lemma get_or_none_Nil: "get_or_none [] k = JNull"
  by (simp add: get_or_none_def)

lemma dict_update_Nil: "dict_update d [] = d"
  by (simp add: dict_update_def)

lemma dict_update_Cons: "dict_update d ((k, v) # e) = dict_update (dict_set k v d) e"
  by (simp add: dict_update_def)

lemmas dict_simps = get_or_none_dict_set get_or_none_Cons get_or_none_Nil
  dict_update_Nil dict_update_Cons

lemma extract_mc_form:
  "extract_multiple_choice_answers params = Inr mc \<Longrightarrow>
     \<exists>q a c. mc = [(u ''question'', JStr q), (u ''answers'', a), (u ''correct_answer'', c)]"
  by (auto simp: extract_multiple_choice_answers_def ebind_Inr_iff)

lemma extract_dd_form:
  "extract_drag_drop_answers B params = Inr dd \<Longrightarrow>
     \<exists>a b c. dd = [(u ''type'', JStr (u ''Drag and Drop'')), (u ''drag_items'', a),
                   (u ''drop_areas'', b), (u ''correct_matches'', c)]"
  by (auto simp: extract_drag_drop_answers_def ebind_Inr_iff)

lemma extract_tf_form:
  "extract_true_false_answers B params = Inr tf \<Longrightarrow>
     \<exists>q c. tf = [(u ''question'', JStr q), (u ''correct_answer'', JStr c)]"
  by (auto simp: extract_true_false_answers_def ebind_Inr_iff)

lemma extract_blanks_form:
  "extract_fill_in_blanks_answers B params = Inr bl \<Longrightarrow>
     \<exists>t a. bl = [(u ''question'', JStr t), (u ''answers'', a)]"
  by (auto simp: extract_fill_in_blanks_answers_def ebind_Inr_iff)

lemma extract_dt_form:
  assumes "extract_drag_text_answers params = Inr dt"
  shows "\<exists>q a t. dt = [(u ''question'', JStr q), (u ''answers'', a), (u ''text_field'', t)]"
proof -
  from assms obtain q tf where
    "(case tf of
        JStr s \<Rightarrow>
          Inr [(u ''question'', JStr q),
               (u ''answers'', JList (map (\<lambda>ans. JStr (clean_text ans)) (findall_star s))),
               (u ''text_field'', tf)]
      | _ \<Rightarrow> Inl TypeError) = Inr dt"
    unfolding extract_drag_text_answers_def ebind_Inr_iff by blast
  then show ?thesis by (cases tf) auto
qed

lemma interaction_record_SomeD:
  assumes "interaction_record B n x = Inr (Some d)"
  shows "\<exists>action library params from_text to_text sid br.
     dget x (u ''action'') (JObj []) = Inr action \<and>
     dget action (u ''library'') (JStr []) = Inr library \<and>
     dget action (u ''params'') (JObj []) = Inr params \<and>
     dget action (u ''subContentId'') (JStr []) = Inr sid \<and>
     dispatch library = Inr br \<and>
     branch_data B br params (base_data n library from_text to_text sid) = Inr (Some d) \<and>
     kept d"
  using assms unfolding interaction_record_def base_data_def
  by (auto simp: ebind_Inr_iff split: option.split_asm if_split_asm)

lemma key_neqs:
  "u ''question_number'' \<noteq> u ''type''" "u ''question_number'' \<noteq> u ''question''"
  "u ''question_number'' \<noteq> u ''answers''" "u ''question_number'' \<noteq> u ''correct_answer''"
  "u ''question_number'' \<noteq> u ''drag_items''" "u ''question_number'' \<noteq> u ''drop_areas''"
  "u ''question_number'' \<noteq> u ''correct_matches''" "u ''question_number'' \<noteq> u ''text_field''"
  "u ''question_number'' \<noteq> u ''raw_params''"
  "u ''subcontent_id'' \<noteq> u ''type''" "u ''subcontent_id'' \<noteq> u ''question''"
  "u ''subcontent_id'' \<noteq> u ''answers''" "u ''subcontent_id'' \<noteq> u ''correct_answer''"
  "u ''subcontent_id'' \<noteq> u ''drag_items''" "u ''subcontent_id'' \<noteq> u ''drop_areas''"
  "u ''subcontent_id'' \<noteq> u ''correct_matches''" "u ''subcontent_id'' \<noteq> u ''text_field''"
  "u ''subcontent_id'' \<noteq> u ''raw_params''"
  "u ''subcontent_id'' \<noteq> u ''question_number''" "u ''subcontent_id'' \<noteq> u ''library_type''"
  "u ''subcontent_id'' \<noteq> u ''time_range''"
  "u ''type'' \<noteq> u ''question''" "u ''type'' \<noteq> u ''answers''"
  "u ''type'' \<noteq> u ''correct_answer''" "u ''type'' \<noteq> u ''drag_items''"
  "u ''type'' \<noteq> u ''drop_areas''" "u ''type'' \<noteq> u ''correct_matches''"
  "u ''type'' \<noteq> u ''text_field''" "u ''type'' \<noteq> u ''raw_params''"
  "u ''correct_answer'' \<noteq> u ''type''" "u ''correct_answer'' \<noteq> u ''question''"
  "u ''correct_answer'' \<noteq> u ''answers''"
  by (simp_all add: u_def)

lemma branch_data_fixed_fields:
  assumes "branch_data B br params base = Inr (Some d)"
  shows "get_or_none d (u ''question_number'') = get_or_none base (u ''question_number'')"
    and "get_or_none d (u ''subcontent_id'') = get_or_none base (u ''subcontent_id'')"
  using assms
  by (cases br;
      auto simp: ebind_Inr_iff dict_simps key_neqs
        dest!: extract_mc_form extract_dd_form extract_tf_form extract_blanks_form extract_dt_form)+

lemma branch_data_type:
  assumes "branch_data B br params base = Inr (Some d)"
  shows "get_or_none d (u ''type'') = JStr (type_name br)"
  using assms
  by (cases br;
      auto simp: ebind_Inr_iff dict_simps key_neqs type_name_def
        dest!: extract_mc_form extract_dd_form extract_tf_form extract_blanks_form extract_dt_form)

section \<open>Examples, evaluated\<close>

lemmas eval_simps =
  u_def clean_text_def clean_str_def strip_def is_space_def is_ascii_letter_def
  extract_multiple_choice_answers_def extract_true_false_answers_def
  py_chr_def py_capitalize_def plain_builtins_def plain_capitalize_def
  ascii_upper_def ascii_lower_def show_int_def to_double_def dispatch_def kept_def
  get_or_none_def dict_update_def interaction_record_def

lemma ex_multichoice_record:
  "interaction_record plain_builtins (Suc 0) ex_multichoice = Inr (Some ex_record_1)"
  by (simp add: eval_simps ex_multichoice_def ex_record_1_def)

lemma ex_image_record:
  "interaction_record plain_builtins n ex_image = Inr None"
  by (simp add: eval_simps ex_image_def)

lemma ex_text_record:
  "interaction_record plain_builtins n ex_text = Inr None"
  by (simp add: eval_simps ex_text_def)

lemma ex_truefalse_record:
  "interaction_record plain_builtins (Suc (Suc 0)) ex_truefalse = Inr (Some ex_record_2)"
  by (simp add: eval_simps ex_truefalse_def ex_truefalse_action_def ex_truefalse_params_def
      ex_record_2_def)

lemma ex_document_records:
  "extract_all_answers plain_builtins ex_document = Inr [ex_record_1, ex_record_2]"
  using ex_multichoice_record ex_image_record ex_text_record ex_truefalse_record
  by (simp add: extract_all_answers_def ex_document_def u_def)

section \<open>Question numbers\<close>



section \<open>The Other branch\<close>

lemma interactions_loop_records:
  "interactions_loop B xs (acc, qn) = Inr recs \<Longrightarrow> d \<in> set recs \<Longrightarrow>
     d \<in> set acc \<or> (\<exists>n x. x \<in> set xs \<and> interaction_record B n x = Inr (Some d))"
proof (induction xs arbitrary: acc qn)
  case Nil
  then show ?case by simp
next
  case (Cons x xs)
  from Cons.prems obtain r where r: "interaction_record B qn x = Inr r"
    and rest: "(case r of None \<Rightarrow> interactions_loop B xs (acc, qn)
                | Some answer_data \<Rightarrow> interactions_loop B xs (acc @ [answer_data], Suc qn)) = Inr recs"
    by (auto simp: ebind_Inr_iff)
  show ?case
  proof (cases r)
    case None
    with rest Cons.IH [of acc qn] Cons.prems(2) show ?thesis by auto
  next
    case (Some d')
    with rest have "interactions_loop B xs (acc @ [d'], Suc qn) = Inr recs" by simp
    from Cons.IH [OF this Cons.prems(2)] r Some show ?thesis by auto
  qed
qed

lemma other_not_kept:
  "\<not> kept (dict_set (u ''raw_params'') params
       (dict_set (u ''type'') (JStr (u ''Other'')) (base_data n library from_text to_text sid)))"
  by (simp add: kept_def dict_simps base_data_def u_def)

lemma emitted_branch:
  assumes "branch_data B br params (base_data n library from_text to_text sid) = Inr (Some d)"
    and "kept d"
  shows "br \<noteq> Other \<and> br \<noteq> Image"
  using assms other_not_kept by (cases br) auto

lemma type_name_Other: "type_name br = u ''Other'' \<longleftrightarrow> br = Other"
  by (cases br) (simp_all add: type_name_def u_def)

lemma interaction_record_type:
  assumes "interaction_record B n x = Inr (Some d)"
  shows "get_or_none d (u ''type'') \<noteq> JStr (u ''Other'')"
proof -
  from interaction_record_SomeD [OF assms] obtain library params from_text to_text sid br
    where b: "branch_data B br params (base_data n library from_text to_text sid) = Inr (Some d)"
      and k: "kept d"
    by blast
  from emitted_branch [OF b k] branch_data_type [OF b] show ?thesis
    by (simp add: type_name_Other)
qed

text \<open>
  C9. An interaction that the dispatch sends to the Other branch yields no record and
  leaves the question number to the next interaction; no record of the output has the
  type Other.
\<close>

theorem other_never_emitted:
  "(dget x (u ''action'') (JObj []) = Inr action \<and>
    dget action (u ''library'') (JStr []) = Inr library \<and>
    dispatch library = Inr Other \<and>
    interaction_record B n x = Inr r \<longrightarrow>
      r = None \<and>
      interactions_loop B (x # rest) (acc, n) = interactions_loop B rest (acc, n)) \<and>
   (extract_all_answers B content = Inr recs \<longrightarrow>
      (\<forall>d \<in> set recs. get_or_none d (u ''type'') \<noteq> JStr (u ''Other'')))"
proof (intro conjI impI)
  assume a: "dget x (u ''action'') (JObj []) = Inr action \<and>
    dget action (u ''library'') (JStr []) = Inr library \<and>
    dispatch library = Inr Other \<and>
    interaction_record B n x = Inr r"
  show none: "r = None"
  proof (cases r)
    case None
    then show ?thesis .
  next
    case (Some d)
    with a have "interaction_record B n x = Inr (Some d)" by simp
    from interaction_record_SomeD [OF this] a obtain params from_text to_text sid br
      where "dispatch library = Inr br"
        and b: "branch_data B br params (base_data n library from_text to_text sid) = Inr (Some d)"
        and k: "kept d"
      by auto
    with a emitted_branch [OF b k] show ?thesis by simp
  qed
  from a none show "interactions_loop B (x # rest) (acc, n) = interactions_loop B rest (acc, n)"
    by simp
next
  assume "extract_all_answers B content = Inr recs"
  then obtain xs where l: "interactions_loop B xs ([], 1) = Inr recs"
    by (auto simp: extract_all_answers_def ebind_Inr_iff)
  show "\<forall>d \<in> set recs. get_or_none d (u ''type'') \<noteq> JStr (u ''Other'')"
  proof
    fix d assume "d \<in> set recs"
    from interactions_loop_records [OF l this] obtain n x
      where "interaction_record B n x = Inr (Some d)" by auto
    then show "get_or_none d (u ''type'') \<noteq> JStr (u ''Other'')"
      by (rule interaction_record_type)
  qed
qed

theorem other_never_emitted_witness:
  "dget ex_text (u ''action'') (JObj []) =
     Inr (JObj [(u ''library'', JStr (u ''H5P.Text 1.1'')),
                (u ''params'', JObj [(u ''text'', JStr (u ''Welcome''))])]) \<and>
   dget (JObj [(u ''library'', JStr (u ''H5P.Text 1.1'')),
               (u ''params'', JObj [(u ''text'', JStr (u ''Welcome''))])])
     (u ''library'') (JStr []) = Inr (JStr (u ''H5P.Text 1.1'')) \<and>
   dispatch (JStr (u ''H5P.Text 1.1'')) = Inr Other \<and>
   interaction_record plain_builtins (Suc 0) ex_text = Inr None \<and>
   interactions_loop plain_builtins [ex_text, ex_multichoice] ([], Suc 0) =
     interactions_loop plain_builtins [ex_multichoice] ([], Suc 0) \<and>
   extract_all_answers plain_builtins ex_document = Inr [ex_record_1, ex_record_2] \<and>
   get_or_none ex_record_1 (u ''type'') \<noteq> JStr (u ''Other'') \<and>
   get_or_none ex_record_2 (u ''type'') \<noteq> JStr (u ''Other'')"
proof -
  have a: "dget ex_text (u ''action'') (JObj []) =
     Inr (JObj [(u ''library'', JStr (u ''H5P.Text 1.1'')),
                (u ''params'', JObj [(u ''text'', JStr (u ''Welcome''))])])"
    by (simp add: ex_text_def u_def)
  have l: "dget (JObj [(u ''library'', JStr (u ''H5P.Text 1.1'')),
               (u ''params'', JObj [(u ''text'', JStr (u ''Welcome''))])])
     (u ''library'') (JStr []) = Inr (JStr (u ''H5P.Text 1.1''))"
    by (simp add: u_def)
  have d: "dispatch (JStr (u ''H5P.Text 1.1'')) = Inr Other"
    by (simp add: dispatch_def u_def)
  show ?thesis
    using other_never_emitted [of ex_text _ _ plain_builtins "Suc 0" None "[ex_multichoice]"
        "[]" ex_document "[ex_record_1, ex_record_2]"]
      a l d ex_text_record [of "Suc 0"] ex_document_records
    by simp
qed

section \<open>The subcontent id\<close>

text \<open>
  C6 (as amended). The \<open>subcontent_id\<close> of an emitted record is the \<open>subContentId\<close>
  entry of the interaction's \<open>action\<close> object, the empty string when \<open>action\<close> has
  none.
\<close>

theorem subcontent_id_from_action:
  assumes "interaction_record B n x = Inr (Some d)"
    and "dget x (u ''action'') (JObj []) = Inr action"
  shows "dget action (u ''subContentId'') (JStr []) =
           Inr (get_or_none d (u ''subcontent_id''))"
proof -
  from interaction_record_SomeD [OF assms(1)] assms(2)
  obtain library params from_text to_text sid br
    where s: "dget action (u ''subContentId'') (JStr []) = Inr sid"
      and b: "branch_data B br params (base_data n library from_text to_text sid) = Inr (Some d)"
    by auto
  from branch_data_fixed_fields(2) [OF b] have "get_or_none d (u ''subcontent_id'') = sid"
    by (simp add: base_data_def dict_simps key_neqs)
  with s show ?thesis by simp
qed

theorem subcontent_id_from_action_witness:
  "interaction_record plain_builtins (Suc 0) ex_multichoice = Inr (Some ex_record_1) \<and>
   get_or_none ex_record_1 (u ''subcontent_id'') = JStr (u ''id-1'') \<and>
   dget (JObj [(u ''library'', JStr (u ''H5P.MultiChoice 1.16'')),
               (u ''params'',
                  JObj [(u ''question'', JStr (u ''<p>Largest?</p>'')),
                        (u ''answers'',
                           JList [JObj [(u ''text'', JStr (u ''<div>Mars</div>'')),
                                        (u ''correct'', JBool False)],
                                  JObj [(u ''text'', JStr (u ''<div>Jupiter</div>'')),
                                        (u ''correct'', JBool True)]])]),
               (u ''subContentId'', JStr (u ''id-1''))])
     (u ''subContentId'') (JStr []) = Inr (JStr (u ''id-1''))"
proof -
  have a: "dget ex_multichoice (u ''action'') (JObj []) =
    Inr (JObj [(u ''library'', JStr (u ''H5P.MultiChoice 1.16'')),
               (u ''params'',
                  JObj [(u ''question'', JStr (u ''<p>Largest?</p>'')),
                        (u ''answers'',
                           JList [JObj [(u ''text'', JStr (u ''<div>Mars</div>'')),
                                        (u ''correct'', JBool False)],
                                  JObj [(u ''text'', JStr (u ''<div>Jupiter</div>'')),
                                        (u ''correct'', JBool True)]])]),
               (u ''subContentId'', JStr (u ''id-1''))])"
    by (simp add: ex_multichoice_def u_def)
  show ?thesis
    using subcontent_id_from_action [OF ex_multichoice_record a] ex_multichoice_record
    by (simp add: ex_record_1_def get_or_none_def u_def)
qed

text \<open>
  C6 as stated fails: the True/False example carries \<open>subContentId\<close> beside
  \<open>action\<close>, and the record's \<open>subcontent_id\<close> is the empty string.
\<close>

theorem subcontent_id_sibling_counterexample:
  "interaction_record plain_builtins (Suc (Suc 0)) ex_truefalse = Inr (Some ex_record_2) \<and>
   dget ex_truefalse (u ''subContentId'') (JStr []) = Inr (JStr (u ''id-2'')) \<and>
   get_or_none ex_record_2 (u ''subcontent_id'') = JStr [] \<and>
   u ''id-2'' \<noteq> []"
  using ex_truefalse_record
  by (simp add: ex_truefalse_def ex_record_2_def get_or_none_def u_def)

section \<open>Dispatch on the library identifier\<close>

lemma dispatch_str:
  "dispatch (JStr lib) =
     Inr (if contains (u ''MultiChoice'') lib then MultiChoice
          else if contains (u ''DragQuestion'') lib then DragQuestion
          else if contains (u ''TrueFalse'') lib then TrueFalse
          else if contains (u ''Blanks'') lib then Blanks
          else if contains (u ''Image'') lib then Image
          else if contains (u ''DragText'') lib then DragText
          else Other)"
  by (simp add: dispatch_def)

text \<open>
  C3. On a library identifier that is a string, the dispatch tests the six substrings in
  the order MultiChoice, DragQuestion, TrueFalse, Blanks, Image, DragText and takes the
  first that occurs, Other when none does. Hence an identifier that contains both
  MultiChoice and DragText is dispatched to Multiple Choice, and the record of such an
  interaction has that type.
\<close>

theorem dispatch_priority:
  "dispatch (JStr lib) =
     Inr (if contains (u ''MultiChoice'') lib then MultiChoice
          else if contains (u ''DragQuestion'') lib then DragQuestion
          else if contains (u ''TrueFalse'') lib then TrueFalse
          else if contains (u ''Blanks'') lib then Blanks
          else if contains (u ''Image'') lib then Image
          else if contains (u ''DragText'') lib then DragText
          else Other) \<and>
   (contains (u ''MultiChoice'') lib \<and> contains (u ''DragText'') lib \<longrightarrow>
      dispatch (JStr lib) = Inr MultiChoice \<and>
      (dget x (u ''action'') (JObj []) = Inr action \<and>
       dget action (u ''library'') (JStr []) = Inr (JStr lib) \<and>
       interaction_record B n x = Inr (Some d) \<longrightarrow>
         get_or_none d (u ''type'') = JStr (u ''Multiple Choice'')))"
proof (intro conjI impI)
  show "dispatch (JStr lib) =
     Inr (if contains (u ''MultiChoice'') lib then MultiChoice
          else if contains (u ''DragQuestion'') lib then DragQuestion
          else if contains (u ''TrueFalse'') lib then TrueFalse
          else if contains (u ''Blanks'') lib then Blanks
          else if contains (u ''Image'') lib then Image
          else if contains (u ''DragText'') lib then DragText
          else Other)"
    by (rule dispatch_str)
next
  assume both: "contains (u ''MultiChoice'') lib \<and> contains (u ''DragText'') lib"
  then show mc: "dispatch (JStr lib) = Inr MultiChoice" by (simp add: dispatch_str)
  assume r: "dget x (u ''action'') (JObj []) = Inr action \<and>
       dget action (u ''library'') (JStr []) = Inr (JStr lib) \<and>
       interaction_record B n x = Inr (Some d)"
  then have "interaction_record B n x = Inr (Some d)" by simp
  from interaction_record_SomeD [OF this] r mc
  obtain params from_text to_text sid
    where "branch_data B MultiChoice params (base_data n (JStr lib) from_text to_text sid) =
             Inr (Some d)"
    by auto
  from branch_data_type [OF this]
  show "get_or_none d (u ''type'') = JStr (u ''Multiple Choice'')"
    by (simp add: type_name_def)
qed

lemma ex_both_record:
  "interaction_record plain_builtins (Suc 0) ex_both = Inr (Some ex_record_both)"
  by (simp add: eval_simps ex_both_def ex_both_action_def ex_record_both_def)

theorem dispatch_priority_witness:
  "contains (u ''MultiChoice'') (u ''H5P.DragTextMultiChoice 1.0'') \<and>
   contains (u ''DragText'') (u ''H5P.DragTextMultiChoice 1.0'') \<and>
   dispatch (JStr (u ''H5P.DragTextMultiChoice 1.0'')) = Inr MultiChoice \<and>
   dget ex_both (u ''action'') (JObj []) = Inr ex_both_action \<and>
   dget ex_both_action (u ''library'') (JStr []) =
     Inr (JStr (u ''H5P.DragTextMultiChoice 1.0'')) \<and>
   interaction_record plain_builtins (Suc 0) ex_both = Inr (Some ex_record_both) \<and>
   get_or_none ex_record_both (u ''type'') = JStr (u ''Multiple Choice'')"
proof -
  have c: "contains (u ''MultiChoice'') (u ''H5P.DragTextMultiChoice 1.0'') \<and>
   contains (u ''DragText'') (u ''H5P.DragTextMultiChoice 1.0'')"
    by (simp add: u_def)
  have a: "dget ex_both (u ''action'') (JObj []) = Inr ex_both_action"
    by (simp add: ex_both_def u_def)
  have l: "dget ex_both_action (u ''library'') (JStr []) =
     Inr (JStr (u ''H5P.DragTextMultiChoice 1.0''))"
    by (simp add: ex_both_action_def u_def)
  show ?thesis
    using dispatch_priority [of "u ''H5P.DragTextMultiChoice 1.0''" ex_both ex_both_action
        plain_builtins "Suc 0" ex_record_both] c a l ex_both_record
    by simp
qed

section \<open>Which interactions yield a record\<close>







lemma ex_image_blanks_record:
  "interaction_record plain_builtins (Suc 0) ex_image_blanks = Inr (Some ex_record_image_blanks)"
  by (simp add: eval_simps extract_fill_in_blanks_answers_def ex_image_blanks_def
      ex_image_blanks_action_def ex_record_image_blanks_def)


lemma ex_image_document_records:
  "extract_all_answers plain_builtins ex_image_document =
     Inr [ex_record_image_blanks, ex_record_2]"
  using ex_image_blanks_record ex_truefalse_record
  by (simp add: extract_all_answers_def ex_image_document_def u_def)


lemma ex_image_blanks_facts:
  "dget ex_image_blanks (u ''action'') (JObj []) = Inr ex_image_blanks_action"
  "dget ex_image_blanks_action (u ''library'') (JStr []) = Inr (JStr (u ''H5P.ImageBlanks 1.0''))"
  "dget ex_image_blanks_action (u ''params'') (JObj []) =
     Inr (JObj [(u ''text'', JStr (u ''The *sky* is blue''))])"
  "dispatch (JStr (u ''H5P.ImageBlanks 1.0'')) = Inr Blanks"
  "contains (u ''Image'') (u ''H5P.ImageBlanks 1.0'')"
  by (simp_all add: ex_image_blanks_def ex_image_blanks_action_def dispatch_def u_def)





text \<open>
  C2 as stated fails: the identifier \<open>H5P.ImageBlanks 1.0\<close> contains \<open>Image\<close>, yet the
  interaction takes the Fill in the Blanks branch, which is tested first; it yields a
  record with the number 1, and the True/False interaction behind it gets the number 2.
\<close>

theorem image_identifier_numbered_counterexample:
  "contains (u ''Image'') (u ''H5P.ImageBlanks 1.0'') \<and>
   dget ex_image_blanks (u ''action'') (JObj []) = Inr ex_image_blanks_action \<and>
   dget ex_image_blanks_action (u ''library'') (JStr []) =
     Inr (JStr (u ''H5P.ImageBlanks 1.0'')) \<and>
   interaction_record plain_builtins (Suc 0) ex_image_blanks =
     Inr (Some ex_record_image_blanks) \<and>
   extract_all_answers plain_builtins ex_image_document =
     Inr [ex_record_image_blanks, ex_record_2] \<and>
   get_or_none ex_record_image_blanks (u ''question_number'') = JInt 1 \<and>
   get_or_none ex_record_2 (u ''question_number'') = JInt 2"
  using ex_image_blanks_facts ex_image_blanks_record ex_image_document_records
  by (simp add: ex_record_image_blanks_def ex_record_2_def get_or_none_def u_def)

section \<open>True/False\<close>

lemma extract_tf_correct_answer:
  assumes "extract_true_false_answers B (JObj kvs) = Inr tf"
  shows "get_or_none tf (u ''correct_answer'') =
     JStr (case map_of kvs (u ''correct'') of
             None \<Rightarrow> []
           | Some (JBool b) \<Rightarrow> (if b then u ''True'' else u ''False'')
           | Some v \<Rightarrow> py_capitalize B (py_str B v))"
  using assms
  by (auto simp: extract_true_false_answers_def ebind_Inr_iff dict_simps key_neqs
      py_capitalize_def split: option.splits json.splits)

text \<open>
  C10. The record emitted for a True/False interaction has the empty string as
  \<open>correct_answer\<close> when the parameters have no \<open>correct\<close> entry, \<open>True\<close> or \<open>False\<close>
  when the entry is a boolean, and the capitalized \<open>str\<close> of the entry otherwise.
\<close>

theorem true_false_correct_answer:
  assumes "dget x (u ''action'') (JObj []) = Inr action"
    and "dget action (u ''library'') (JStr []) = Inr library"
    and "dispatch library = Inr TrueFalse"
    and "dget action (u ''params'') (JObj []) = Inr (JObj kvs)"
    and "interaction_record B n x = Inr (Some d)"
  shows "get_or_none d (u ''correct_answer'') =
     JStr (case map_of kvs (u ''correct'') of
             None \<Rightarrow> []
           | Some (JBool b) \<Rightarrow> (if b then u ''True'' else u ''False'')
           | Some v \<Rightarrow> py_capitalize B (py_str B v))"
proof -
  from interaction_record_SomeD [OF assms(5)] assms(1-4)
  obtain from_text to_text sid
    where "branch_data B TrueFalse (JObj kvs) (base_data n library from_text to_text sid) =
             Inr (Some d)"
    by auto
  then obtain tf where tf: "extract_true_false_answers B (JObj kvs) = Inr tf"
    and d: "d = dict_set (u ''type'') (JStr (u ''True/False''))
                  (dict_update (base_data n library from_text to_text sid) tf)"
    by (auto simp: ebind_Inr_iff)
  from extract_tf_form [OF tf] obtain q c where
    form: "tf = [(u ''question'', JStr q), (u ''correct_answer'', JStr c)]" by blast
  have "get_or_none d (u ''correct_answer'') = get_or_none tf (u ''correct_answer'')"
    unfolding d form by (simp add: dict_simps key_neqs)
  with extract_tf_correct_answer [OF tf] show ?thesis by simp
qed

theorem true_false_correct_answer_witness:
  "dget ex_truefalse (u ''action'') (JObj []) = Inr ex_truefalse_action \<and>
   dget ex_truefalse_action (u ''library'') (JStr []) = Inr (JStr (u ''H5P.TrueFalse 1.8'')) \<and>
   dispatch (JStr (u ''H5P.TrueFalse 1.8'')) = Inr TrueFalse \<and>
   dget ex_truefalse_action (u ''params'') (JObj []) = Inr (JObj ex_truefalse_params) \<and>
   interaction_record plain_builtins (Suc (Suc 0)) ex_truefalse = Inr (Some ex_record_2) \<and>
   map_of ex_truefalse_params (u ''correct'') = Some (JStr (u ''false'')) \<and>
   get_or_none ex_record_2 (u ''correct_answer'') =
     JStr (py_capitalize plain_builtins (py_str plain_builtins (JStr (u ''false'')))) \<and>
   py_capitalize plain_builtins (py_str plain_builtins (JStr (u ''false''))) = u ''False''"
proof -
  have a: "dget ex_truefalse (u ''action'') (JObj []) = Inr ex_truefalse_action"
    by (simp add: ex_truefalse_def u_def)
  have l: "dget ex_truefalse_action (u ''library'') (JStr []) =
      Inr (JStr (u ''H5P.TrueFalse 1.8''))"
    by (simp add: ex_truefalse_action_def u_def)
  have d: "dispatch (JStr (u ''H5P.TrueFalse 1.8'')) = Inr TrueFalse"
    by (simp add: dispatch_def u_def)
  have p: "dget ex_truefalse_action (u ''params'') (JObj []) = Inr (JObj ex_truefalse_params)"
    by (simp add: ex_truefalse_action_def u_def)
  have m: "map_of ex_truefalse_params (u ''correct'') = Some (JStr (u ''false''))"
    by (simp add: ex_truefalse_params_def u_def)
  have c: "py_capitalize plain_builtins (py_str plain_builtins (JStr (u ''false''))) = u ''False''"
    by (simp add: eval_simps)
  show ?thesis
    using true_false_correct_answer [OF a l d p ex_truefalse_record] a l d p m c
      ex_truefalse_record
    by simp
qed

text \<open>The cases of the claim on parameter trees, with the built-ins on ASCII text.\<close>

lemma true_false_examples:
  "extract_true_false_answers plain_builtins (JObj []) =
     Inr [(u ''question'', JStr []), (u ''correct_answer'', JStr [])]"
  "extract_true_false_answers plain_builtins (JObj [(u ''correct'', JBool True)]) =
     Inr [(u ''question'', JStr []), (u ''correct_answer'', JStr (u ''True''))]"
  "extract_true_false_answers plain_builtins (JObj [(u ''correct'', JBool False)]) =
     Inr [(u ''question'', JStr []), (u ''correct_answer'', JStr (u ''False''))]"
  "extract_true_false_answers plain_builtins (JObj [(u ''correct'', JStr (u ''true''))]) =
     Inr [(u ''question'', JStr []), (u ''correct_answer'', JStr (u ''True''))]"
  "extract_true_false_answers plain_builtins (JObj [(u ''correct'', JNull)]) =
     Inr [(u ''question'', JStr []), (u ''correct_answer'', JStr (u ''None''))]"
  by (simp_all add: eval_simps)

section \<open>Drag and Drop\<close>

lemma positions_of_add_match:
  "positions_of (add_match t idx cm) t' =
     positions_of cm t' @ (if t' = t then [idx] else [])"
  by (induction cm) (auto simp: positions_of_def)

lemma py_int_errors:
  "py_int B e = Inl err \<Longrightarrow> err = TypeError \<or> err = ValueError \<or> err = OverflowError"
  by (induction B e rule: py_int.induct) (auto split: option.splits)




text \<open>
  Over the whole second loop: the list recorded for a text holds, zone by zone and entry
  by entry, the position of each zone once for every entry that refers to the text.
\<close>

lemma match_entry_referenced:
  "match_entry B items idx cm e = Inr cm' \<Longrightarrow>
     cm' = (case referenced B items e of None \<Rightarrow> cm | Some t \<Rightarrow> add_match t idx cm)"
  by (cases "py_int B e")
     (auto simp: match_entry_def try_entry_def py_index_def referenced_def
        split: if_split_asm py_error.splits dest: py_int_errors)

lemma entries_loop_positions:
  "entries_loop B items idx es cm = Inr cm' \<Longrightarrow>
     positions_of cm' t =
       positions_of cm t @ map (\<lambda>e. idx) (filter (\<lambda>e. referenced B items e = Some t) es)"
proof (induction es arbitrary: cm)
  case Nil
  then show ?case by simp
next
  case (Cons e es)
  from Cons.prems obtain cm1 where
    1: "match_entry B items idx cm e = Inr cm1" and
    2: "entries_loop B items idx es cm1 = Inr cm'"
    by (auto simp: ebind_Inr_iff)
  from match_entry_referenced [OF 1] have
    "positions_of cm1 t = positions_of cm t @ (if referenced B items e = Some t then [idx] else [])"
    by (auto simp: positions_of_add_match split: option.splits)
  with Cons.IH [OF 2] show ?case by simp
qed

lemma zones_loop_positions:
  "zones_loop B items idx zones (areas, cm) = Inr (areas', cm') \<Longrightarrow>
     positions_of cm' t =
       positions_of cm t @
       concat (map (\<lambda>(j, zone).
                 map (\<lambda>e. j) (filter (\<lambda>e. referenced B items e = Some t) (entries_of zone)))
               (zip [idx..<idx + length zones] zones))"
proof (induction zones arbitrary: idx areas cm)
  case Nil
  then show ?case by simp
next
  case (Cons zone zones)
  from Cons.prems obtain ce es cm1 areas1 where
    ce: "dget zone (u ''correctElements'') (JList []) = Inr ce" and
    es: "py_iter ce = Inr es" and
    1: "entries_loop B items idx es cm = Inr cm1" and
    2: "zones_loop B items (Suc idx) zones (areas1, cm1) = Inr (areas', cm')"
    by (auto simp: ebind_Inr_iff)
  from ce es have e: "entries_of zone = es" by (simp add: entries_of_def)
  have up: "[idx..<idx + length (zone # zones)] = idx # [Suc idx..<Suc idx + length zones]"
    by (simp add: upt_conv_Cons del: upt_Suc)
  from Cons.IH [OF 2] entries_loop_positions [OF 1] show ?case
    unfolding up by (simp add: e)
qed

text \<open>The example of the specification, with two entries that are skipped.\<close>

lemma ex_drag_result:
  "extract_drag_drop_answers plain_builtins ex_drag =
     Inr [(u ''type'', JStr (u ''Drag and Drop'')),
          (u ''drag_items'', JList [JStr (u ''Paris''), JStr (u ''Berlin'')]),
          (u ''drop_areas'', JList [JStr (u ''Germany'')]),
          (u ''correct_matches'', JObj [(u ''Berlin'', JList [JInt 0])])]"
  by (simp add: extract_drag_drop_answers_def ex_drag_def match_entry_def try_entry_def
      py_index_def json_of_matches_def plain_builtins_def plain_int_of_str_def int_space_def
      digits_ok_def is_digit_def digits_value_def u_def clean_text_def clean_str_def strip_def
      is_space_def
      is_ascii_letter_def)


section \<open>Fill in the Blanks and Drag Text\<close>

lemma star_pairs_Nil: "star_pairs [] = []"
  by (simp add: star_pairs.simps)

lemma star_pairs_other: "c \<noteq> 42 \<Longrightarrow> star_pairs (c # cs) = star_pairs cs"
  by (simp add: star_pairs.simps [of "c # cs"] star_pairs.simps [of cs])

lemma star_pairs_star:
  "star_pairs (42 # cs) =
     (case dropWhile (\<lambda>x. x \<noteq> 42) cs of
        [] \<Rightarrow> []
      | b # rest \<Rightarrow> takeWhile (\<lambda>x. x \<noteq> 42) cs # star_pairs rest)"
  by (simp add: star_pairs.simps [of "42 # cs"])

lemma star_pairs_no_star: "42 \<notin> set s \<Longrightarrow> star_pairs s = []"
  by (induction s) (auto simp: star_pairs_Nil star_pairs_other)

lemma takeWhile_no_lf:
  "10 \<notin> set cs \<Longrightarrow> takeWhile (\<lambda>x. x \<noteq> 42 \<and> x \<noteq> (10::nat)) cs = takeWhile (\<lambda>x. x \<noteq> 42) cs"
  by (induction cs) auto

lemma dropWhile_no_lf:
  "10 \<notin> set cs \<Longrightarrow> dropWhile (\<lambda>x. x \<noteq> 42 \<and> x \<noteq> (10::nat)) cs = dropWhile (\<lambda>x. x \<noteq> 42) cs"
  by (induction cs) auto

lemma dropWhile_line:
  "10 \<notin> set cs \<Longrightarrow>
     dropWhile (\<lambda>x. x \<noteq> 42 \<and> x \<noteq> (10::nat)) (cs @ 10 # rest) =
       (if 42 \<in> set cs then dropWhile (\<lambda>x. x \<noteq> 42) cs @ 10 # rest else 10 # rest)"
  by (induction cs) auto

lemma takeWhile_line:
  "10 \<notin> set cs \<Longrightarrow> 42 \<in> set cs \<Longrightarrow>
     takeWhile (\<lambda>x. x \<noteq> 42 \<and> x \<noteq> (10::nat)) (cs @ 10 # rest) = takeWhile (\<lambda>x. x \<noteq> 42) cs"
  by (induction cs) auto

lemma findall_star_line:
  "10 \<notin> set l \<Longrightarrow> findall_star (l @ 10 # rest) = star_pairs l @ findall_star rest"
proof (induction l rule: length_induct)
  case (1 l)
  show ?case
  proof (cases l)
    case Nil
    then show ?thesis by (simp add: star_pairs_Nil)
  next
    case (Cons c cs)
    with 1 have nolf: "10 \<notin> set cs" by simp
    have ih: "\<And>ys. length ys < length l \<Longrightarrow> 10 \<notin> set ys \<Longrightarrow>
        findall_star (ys @ 10 # rest) = star_pairs ys @ findall_star rest"
      using 1 by blast
    show ?thesis
    proof (cases "c = 42")
      case False
      with Cons ih [of cs] nolf show ?thesis by (simp add: star_pairs_other)
    next
      case star: True
      show ?thesis
      proof (cases "42 \<in> set cs")
        case False
        then have "dropWhile (\<lambda>x. x \<noteq> 42) cs = []"
          unfolding dropWhile_eq_Nil_conv by blast
        then have "star_pairs (42 # cs) = []"
          unfolding star_pairs_star by (simp only: list.case)
        moreover have "findall_star (l @ 10 # rest) = findall_star (cs @ 10 # rest)"
          using Cons star False nolf by (simp add: dropWhile_line)
        moreover have "findall_star (cs @ 10 # rest) = star_pairs cs @ findall_star rest"
          using ih [of cs] nolf Cons by simp
        ultimately show ?thesis
          using Cons star False by (simp add: star_pairs_no_star)
      next
        case True
        then obtain r where r: "dropWhile (\<lambda>x. x \<noteq> 42) cs = 42 # r"
          by (metis (mono_tags, lifting) dropWhile_eq_Nil_conv hd_dropWhile list.exhaust_sel)
        have len: "length r < length l"
          using length_dropWhile_le [of "\<lambda>x. x \<noteq> 42" cs] r Cons by simp
        have "set r \<subseteq> set cs"
          using set_dropWhileD [of _ "\<lambda>x. x \<noteq> 42" cs] r by auto
        with nolf have rn: "10 \<notin> set r" by auto
        have "findall_star (l @ 10 # rest) =
            takeWhile (\<lambda>x. x \<noteq> 42) cs # findall_star (r @ 10 # rest)"
          using Cons star True nolf r
          by (simp add: dropWhile_line takeWhile_line dropWhile_no_lf takeWhile_no_lf)
        also have "findall_star (r @ 10 # rest) = star_pairs r @ findall_star rest"
          using ih [OF len rn] .
        finally show ?thesis
          using Cons star r by (simp add: star_pairs_star)
      qed
    qed
  qed
qed

lemma findall_star_one_line:
  "10 \<notin> set s \<Longrightarrow> findall_star s = star_pairs s"
proof (induction s rule: findall_star.induct)
  case 1
  then show ?case by (simp add: star_pairs_Nil)
next
  case (2 c cs)
  then have nolf: "10 \<notin> set cs" by simp
  show ?case
  proof (cases "c = 42")
    case False
    with 2 show ?thesis by (simp add: star_pairs_other)
  next
    case star: True
    show ?thesis
    proof (cases "dropWhile (\<lambda>x. x \<noteq> 42) cs")
      case Nil
      then have ns: "42 \<notin> set cs" unfolding dropWhile_eq_Nil_conv by blast
      have "findall_star (c # cs) = findall_star cs"
        using star Nil nolf by (simp only: findall_star.simps dropWhile_no_lf starts_with.simps if_False simp_thms)
      also have "\<dots> = star_pairs cs" using 2 star Nil nolf
        by (simp only: dropWhile_no_lf starts_with.simps simp_thms)
      also have "\<dots> = []" using ns by (rule star_pairs_no_star)
      also have "[] = star_pairs (c # cs)"
        unfolding star star_pairs_star Nil by (simp only: list.case)
      finally show ?thesis .
    next
      case (Cons b r)
      then have b: "b = 42" using hd_dropWhile [of "\<lambda>x. x \<noteq> 42" cs] by auto
      have "set r \<subseteq> set cs"
        using set_dropWhileD [of _ "\<lambda>x. x \<noteq> 42" cs] Cons by auto
      with nolf have "10 \<notin> set r" by auto
      with 2 star Cons b nolf show ?thesis
        by (simp add: dropWhile_no_lf takeWhile_no_lf star_pairs_star)
    qed
  qed
qed

lemma split_lines_no_lf: "10 \<notin> set s \<Longrightarrow> split_lines s = [s]"
  by (induction s) auto

lemma split_lines_line:
  "10 \<notin> set l \<Longrightarrow> split_lines (l @ 10 # rest) = l # split_lines rest"
  by (induction l) auto

lemma findall_star_lines:
  "findall_star s = concat (map star_pairs (split_lines s))"
proof (induction s rule: length_induct)
  case (1 s)
  show ?case
  proof (cases "10 \<in> set s")
    case False
    then show ?thesis by (simp add: findall_star_one_line split_lines_no_lf)
  next
    case True
    from split_list_first [OF True] obtain l rest where
      s: "s = l @ 10 # rest" and l: "10 \<notin> set l" by blast
    have "length rest < length s" unfolding s by simp
    with 1 have "findall_star rest = concat (map star_pairs (split_lines rest))" by blast
    with findall_star_line [OF l, of rest] split_lines_line [OF l, of rest]
    show ?thesis unfolding s by simp
  qed
qed

lemma collapse_ws_spaces: "c \<in> set (collapse_ws s) \<Longrightarrow> is_space c \<Longrightarrow> c = 32"
proof (induction s rule: collapse_ws.induct)
  case 1
  then show ?case by simp
next
  case (2 c' cs)
  then show ?case by (cases "is_space c'") auto
qed

lemma set_strip: "set (strip s) \<subseteq> set s"
  by (auto simp: strip_def dest!: set_dropWhileD)

lemma clean_text_no_lf: "10 \<notin> set (clean_text s)"
proof
  assume a: "10 \<in> set (clean_text s)"
  then have "10 \<in> set (clean_str s)" by (auto simp: clean_text_def split: if_splits)
  then have "10 \<in> set (collapse_ws (strip_entities (replace_nbsp (strip_tags s))))"
    unfolding clean_str_def using set_strip by blast
  from collapse_ws_spaces [OF this] show False by (simp add: is_space_def)
qed

lemma clean_html_text_no_lf: "clean_html_text v = Inr t \<Longrightarrow> 10 \<notin> set t"
  by (cases v) (auto simp: clean_text_no_lf split: if_splits)

lemma blanks_scan:
  assumes "extract_fill_in_blanks_answers B params = Inr d"
  shows "\<exists>t. d = [(u ''question'', JStr t), (u ''answers'', JList (map JStr (star_pairs t)))]"
proof -
  from assms obtain src t where c: "clean_html_text src = Inr t"
    and d: "d = [(u ''question'', JStr t), (u ''answers'', JList (map JStr (findall_star t)))]"
    unfolding extract_fill_in_blanks_answers_def ebind_Inr_iff by auto
  from clean_html_text_no_lf [OF c] have "findall_star t = star_pairs t"
    by (rule findall_star_one_line)
  with d show ?thesis by simp
qed

lemma blanks_text_field:
  assumes "map_of kvs (u ''questions'') = None"
    and "map_of kvs (u ''text'') = Some (JStr s)"
  shows "extract_fill_in_blanks_answers B (JObj kvs) =
     Inr [(u ''question'', JStr (clean_text s)),
          (u ''answers'', JList (map JStr (star_pairs (clean_text s))))]"
  using assms findall_star_one_line [OF clean_text_no_lf [of s]]
  by (simp add: extract_fill_in_blanks_answers_def)

lemma blanks_questions_list:
  assumes "map_of kvs (u ''questions'') = Some (JList qs)"
    and "qs \<noteq> []"
    and "py_join [10] qs = Inr joined"
  shows "extract_fill_in_blanks_answers B (JObj kvs) =
     Inr [(u ''question'', JStr (clean_text joined)),
          (u ''answers'', JList (map JStr (star_pairs (clean_text joined))))]"
  using assms findall_star_one_line [OF clean_text_no_lf [of joined]]
  by (simp add: extract_fill_in_blanks_answers_def)

lemma drag_text_scan:
  assumes "dget params (u ''textField'') (JStr []) = Inr (JStr s)"
    and "extract_drag_text_answers params = Inr d"
  shows "get_or_none d (u ''answers'') =
           JList (map (\<lambda>ans. JStr (clean_text ans)) (concat (map star_pairs (split_lines s)))) \<and>
         get_or_none d (u ''text_field'') = JStr s"
  using assms
  by (auto simp: extract_drag_text_answers_def ebind_Inr_iff dict_simps u_def
      findall_star_lines [symmetric])

lemma ex_blanks_result:
  "extract_fill_in_blanks_answers B (JObj ex_blanks_params) =
     Inr [(u ''question'', JStr ex_sentence),
          (u ''answers'', JList [JStr (u ''capital''), JStr (u ''Paris'')])]"
  by (simp add: extract_fill_in_blanks_answers_def ex_blanks_params_def ex_fragments_def
      ex_sentence_def u_def clean_text_def clean_str_def strip_def is_space_def
      is_ascii_letter_def)

text \<open>
  C8 (as amended). Fill in the Blanks normalizes the source text and then scans it: the
  answers are the substrings between pairs of asterisks of the retained question text,
  from left to right, and that text still holds the asterisks. Drag Text scans the raw
  text field line by line: a pair of asterisks encloses a span only when no line feed
  lies between them, and each span is normalized afterwards. On the example sentence both
  give \<open>capital\<close> and \<open>Paris\<close>.
\<close>

theorem asterisk_spans:
  "(extract_fill_in_blanks_answers B params = Inr d \<longrightarrow>
      (\<exists>t. d = [(u ''question'', JStr t), (u ''answers'', JList (map JStr (star_pairs t)))])) \<and>
   (map_of kvs (u ''questions'') = None \<and> map_of kvs (u ''text'') = Some (JStr s) \<longrightarrow>
      extract_fill_in_blanks_answers B (JObj kvs) =
        Inr [(u ''question'', JStr (clean_text s)),
             (u ''answers'', JList (map JStr (star_pairs (clean_text s))))]) \<and>
   (map_of kvs' (u ''questions'') = Some (JList qs) \<and> qs \<noteq> [] \<and>
    py_join [10] qs = Inr joined \<longrightarrow>
      extract_fill_in_blanks_answers B (JObj kvs') =
        Inr [(u ''question'', JStr (clean_text joined)),
             (u ''answers'', JList (map JStr (star_pairs (clean_text joined))))]) \<and>
   (dget params' (u ''textField'') (JStr []) = Inr (JStr s') \<and>
    extract_drag_text_answers params' = Inr d' \<longrightarrow>
      get_or_none d' (u ''answers'') =
        JList (map (\<lambda>ans. JStr (clean_text ans)) (concat (map star_pairs (split_lines s')))) \<and>
      get_or_none d' (u ''text_field'') = JStr s') \<and>
   extract_fill_in_blanks_answers B (JObj [(u ''text'', JStr ex_sentence)]) =
     Inr [(u ''question'', JStr ex_sentence),
          (u ''answers'', JList [JStr (u ''capital''), JStr (u ''Paris'')])] \<and>
   extract_drag_text_answers (JObj [(u ''textField'', JStr ex_sentence)]) =
     Inr [(u ''question'', JStr []),
          (u ''answers'', JList [JStr (u ''capital''), JStr (u ''Paris'')]),
          (u ''text_field'', JStr ex_sentence)] \<and>
   42 \<in> set ex_sentence"
proof (intro conjI impI)
  assume "extract_fill_in_blanks_answers B params = Inr d"
  then show "\<exists>t. d = [(u ''question'', JStr t), (u ''answers'', JList (map JStr (star_pairs t)))]"
    by (rule blanks_scan)
next
  assume "map_of kvs (u ''questions'') = None \<and> map_of kvs (u ''text'') = Some (JStr s)"
  then show "extract_fill_in_blanks_answers B (JObj kvs) =
        Inr [(u ''question'', JStr (clean_text s)),
             (u ''answers'', JList (map JStr (star_pairs (clean_text s))))]"
    using blanks_text_field by blast
next
  assume "map_of kvs' (u ''questions'') = Some (JList qs) \<and> qs \<noteq> [] \<and>
    py_join [10] qs = Inr joined"
  then show "extract_fill_in_blanks_answers B (JObj kvs') =
        Inr [(u ''question'', JStr (clean_text joined)),
             (u ''answers'', JList (map JStr (star_pairs (clean_text joined))))]"
    using blanks_questions_list by blast
next
  assume a: "dget params' (u ''textField'') (JStr []) = Inr (JStr s') \<and>
    extract_drag_text_answers params' = Inr d'"
  with drag_text_scan [of params' s' d']
  show "get_or_none d' (u ''answers'') =
        JList (map (\<lambda>ans. JStr (clean_text ans)) (concat (map star_pairs (split_lines s'))))"
    by blast
  from a drag_text_scan [of params' s' d']
  show "get_or_none d' (u ''text_field'') = JStr s'" by blast
next
  show "extract_fill_in_blanks_answers B (JObj [(u ''text'', JStr ex_sentence)]) =
     Inr [(u ''question'', JStr ex_sentence),
          (u ''answers'', JList [JStr (u ''capital''), JStr (u ''Paris'')])]"
    by (simp add: extract_fill_in_blanks_answers_def ex_sentence_def u_def clean_text_def
        clean_str_def strip_def is_space_def is_ascii_letter_def)
next
  show "extract_drag_text_answers (JObj [(u ''textField'', JStr ex_sentence)]) =
     Inr [(u ''question'', JStr []),
          (u ''answers'', JList [JStr (u ''capital''), JStr (u ''Paris'')]),
          (u ''text_field'', JStr ex_sentence)]"
    by (simp add: extract_drag_text_answers_def ex_sentence_def u_def clean_text_def
        clean_str_def strip_def is_space_def is_ascii_letter_def)
next
  show "42 \<in> set ex_sentence" by (simp add: ex_sentence_def u_def)
qed

theorem asterisk_spans_witness:
  "extract_fill_in_blanks_answers plain_builtins (JObj ex_blanks_params) =
     Inr [(u ''question'', JStr ex_sentence),
          (u ''answers'', JList [JStr (u ''capital''), JStr (u ''Paris'')])] \<and>
   star_pairs ex_sentence = [u ''capital'', u ''Paris''] \<and>
   map_of [(u ''text'', JStr (u ''<i>*x*</i> y''))] (u ''questions'') = None \<and>
   map_of [(u ''text'', JStr (u ''<i>*x*</i> y''))] (u ''text'') =
     Some (JStr (u ''<i>*x*</i> y'')) \<and>
   extract_fill_in_blanks_answers plain_builtins (JObj [(u ''text'', JStr (u ''<i>*x*</i> y''))]) =
     Inr [(u ''question'', JStr (u ''*x* y'')), (u ''answers'', JList [JStr (u ''x'')])] \<and>
   map_of ex_blanks_params (u ''questions'') = Some (JList ex_fragments) \<and>
   ex_fragments \<noteq> [] \<and>
   py_join [10] ex_fragments =
     Inr (u ''<p>The *capital* of'' @ [10] @ u ''France is <b>*Paris*</b></p>'') \<and>
   clean_text (u ''<p>The *capital* of'' @ [10] @ u ''France is <b>*Paris*</b></p>'') =
     ex_sentence \<and>
   dget (JObj [(u ''textField'', JStr ex_sentence)]) (u ''textField'') (JStr []) =
     Inr (JStr ex_sentence) \<and>
   extract_drag_text_answers (JObj [(u ''textField'', JStr ex_sentence)]) =
     Inr [(u ''question'', JStr []),
          (u ''answers'', JList [JStr (u ''capital''), JStr (u ''Paris'')]),
          (u ''text_field'', JStr ex_sentence)] \<and>
   concat (map star_pairs (split_lines ex_sentence)) = [u ''capital'', u ''Paris'']"
  using asterisk_spans [of plain_builtins "JObj ex_blanks_params"
      "[(u ''question'', JStr ex_sentence),
        (u ''answers'', JList [JStr (u ''capital''), JStr (u ''Paris'')])]"
      "[(u ''text'', JStr (u ''<i>*x*</i> y''))]" "u ''<i>*x*</i> y''"
      ex_blanks_params ex_fragments
      "u ''<p>The *capital* of'' @ [10] @ u ''France is <b>*Paris*</b></p>''"
      "JObj [(u ''textField'', JStr ex_sentence)]" ex_sentence
      "[(u ''question'', JStr []),
        (u ''answers'', JList [JStr (u ''capital''), JStr (u ''Paris'')]),
        (u ''text_field'', JStr ex_sentence)]"]
    ex_blanks_result [of plain_builtins]
  by (simp add: extract_fill_in_blanks_answers_def extract_drag_text_answers_def
      ex_blanks_params_def ex_fragments_def ex_sentence_def u_def clean_text_def clean_str_def
      strip_def is_space_def is_ascii_letter_def star_pairs_star star_pairs_other
      star_pairs_Nil)

text \<open>
  C8 as stated fails for Drag Text: in the text field \<open>*a\<close>, line feed, \<open>b*\<close> the two
  asterisks form a pair, the substring between them is \<open>a\<close>, line feed, \<open>b\<close>, and the
  extracted list is empty.
\<close>

theorem drag_text_line_feed_counterexample:
  "extract_drag_text_answers (JObj [(u ''textField'', JStr ex_two_lines)]) =
     Inr [(u ''question'', JStr []), (u ''answers'', JList []),
          (u ''text_field'', JStr ex_two_lines)] \<and>
   star_pairs ex_two_lines = [u ''a'' @ [10] @ u ''b'']"
  by (simp add: extract_drag_text_answers_def ex_two_lines_def u_def clean_text_def
      star_pairs_star star_pairs_other star_pairs_Nil)

section \<open>The report file\<close>

lemma report_path_examples:
  "extract_answers_report_path plain_builtins (u ''/work'') (u ''lessons/Quiz.H5P'') =
     u ''/work/Quiz_answer.txt''"
  "extract_answers_report_path plain_builtins (u ''/work'') (u ''content.json'') =
     u ''/work/extracted_answers.txt''"
  by (simp_all add: extract_answers_report_path_def save_answers_path_def plain_builtins_def
      ascii_lower_def ends_with_def path_join_def basename_def splitext_root_def u_def)

lemma main_report_path_is_input: "main_report_path B cwd file_path = file_path"
  by (simp add: main_report_path_def save_answers_path_def)

text \<open>
  C7, at the input on which the code departs from it: \<open>quiz.zip\<close> passes the archive
  test of \<open>extract_answers\<close>, and the report goes to \<open>extracted_answers.txt\<close>, not to
  \<open>quiz_answer.txt\<close>, because \<open>save_answers_to_file\<close> tests the suffix \<open>.h5p\<close> only.
\<close>

theorem zip_report_path:
  "is_archive plain_builtins (u ''quiz.zip'') \<and>
   extract_answers_report_path plain_builtins (u ''/work'') (u ''quiz.zip'') =
     u ''/work/extracted_answers.txt''"
  by (simp add: is_archive_def extract_answers_report_path_def save_answers_path_def
      plain_builtins_def ascii_lower_def ends_with_def path_join_def u_def)


end
